theory Spec2Isabelle
  imports Complex_Main
begin

section \<open>Python values, exceptions and effects\<close>

text \<open>
  The repository is a Python program whose three collaborators (the Gmail client, the
  Keras model with its tokenizer, and the Selenium driver) are libraries outside it.
  Every call into them is a parameter of the model: a function from the state of the
  outside world to a result and a new state.  A result is \<open>Inr v\<close> for a normal return
  and \<open>Inl e\<close> for a raised exception.

  \<open>exn\<close> stands for the instances of Python's \<open>Exception\<close> class, which is what the
  \<open>except Exception\<close> clauses of the source catch.  \<open>HttpError\<close> is the one subclass
  the source names in its own \<open>except\<close> clauses; \<open>Exception\<close> stands for an instance of
  any other subclass (\<open>IndexError\<close>, \<open>TimeoutException\<close>, ...).  Each carries the text
  that \<open>str(e)\<close> renders.  Interpreter signals that are not instances of \<open>Exception\<close>
  (\<open>KeyboardInterrupt\<close>, \<open>SystemExit\<close>) are not modelled.

  Python floats are modelled by the real numbers they denote; comparison of finite
  floats is comparison of these reals.  The double nearest to the literal \<open>0.85\<close> lies
  just below \<open>85/100\<close> and no double lies between the two, so \<open>c > 0.85\<close> on doubles
  agrees with \<open>c > 85/100\<close> on the reals they denote; \<open>0.5\<close> is exact.
\<close>

datatype exn = HttpError string | Exception string

fun exn_str :: "exn \<Rightarrow> string" where
  "exn_str (HttpError s) = s"
| "exn_str (Exception s) = s"

type_synonym ('a, 's) prog = "'s \<Rightarrow> (exn + 'a) \<times> 's"

definition ret :: "'a \<Rightarrow> ('a, 's) prog" where
  "ret x = (\<lambda>s. (Inr x, s))"

definition raise :: "exn \<Rightarrow> ('a, 's) prog" where
  "raise e = (\<lambda>s. (Inl e, s))"

definition bind :: "('a, 's) prog \<Rightarrow> ('a \<Rightarrow> ('b, 's) prog) \<Rightarrow> ('b, 's) prog" where
  "bind m f = (\<lambda>s. case m s of (Inl e, s') \<Rightarrow> (Inl e, s') | (Inr x, s') \<Rightarrow> f x s')"

text \<open>\<open>try: m except Exception as e: h e\<close>\<close>

definition try_except :: "('a, 's) prog \<Rightarrow> (exn \<Rightarrow> ('a, 's) prog) \<Rightarrow> ('a, 's) prog" where
  "try_except m h = (\<lambda>s. case m s of (Inl e, s') \<Rightarrow> h e s' | (Inr x, s') \<Rightarrow> (Inr x, s'))"

text \<open>\<open>try: m except HttpError as error: h error\<close>: any other exception passes through.\<close>

definition try_except_HttpError ::
  "('a, 's) prog \<Rightarrow> (exn \<Rightarrow> ('a, 's) prog) \<Rightarrow> ('a, 's) prog" where
  "try_except_HttpError m h =
     (\<lambda>s. case m s of
        (Inl (HttpError t), s') \<Rightarrow> h (HttpError t) s'
      | (Inl (Exception t), s') \<Rightarrow> (Inl (Exception t), s')
      | (Inr x, s') \<Rightarrow> (Inr x, s'))"

text \<open>
  An email is the dictionary built by \<open>_parse_email\<close>, kept as an association list in
  insertion order.  The entry \<open>'raw'\<close> (the whole Gmail message) is read nowhere in the
  repository and is left out.  \<open>dict_get d k v\<close> is \<open>d.get(k, v)\<close>.
\<close>

type_synonym email = "(string \<times> string) list"

definition dict_get :: "email \<Rightarrow> string \<Rightarrow> string \<Rightarrow> string" where
  "dict_get d k v = (case map_of d k of None \<Rightarrow> v | Some x \<Rightarrow> x)"

text \<open>A text between single quotes, as Python renders the name in an error message.\<close>

definition squoted :: "string \<Rightarrow> string" where
  "squoted t = [CHR 0x27] @ t @ [CHR 0x27]"

section \<open>main.py: the orchestrator\<close>

text \<open>
  \<open>EmailAutomationSystem\<close> holds three objects and calls five of their methods by name.
  The record \<open>ports\<close> is those objects as \<open>process_emails\<close> sees them: whatever is
  bound to \<open>self.email_handler\<close>, \<open>self.model_predictor\<close> and
  \<open>self.automation_engine\<close>, each method a program over the world \<open>'w\<close> outside the
  orchestrator.
\<close>

record 'w ports =
  port_fetch_emails :: "string \<Rightarrow> bool \<Rightarrow> int \<Rightarrow> (email list, 'w) prog"
  port_mark_as_read :: "string \<Rightarrow> (bool, 'w) prog"
  port_predict :: "string \<Rightarrow> (bool, 'w) prog"
  port_get_confidence_score :: "string \<Rightarrow> (real, 'w) prog"
  port_participate_in_giveaway :: "email \<Rightarrow> (bool, 'w) prog"

text \<open>
  What \<open>process_emails\<close> does that can be observed: the entries it hands to its logger
  (one constructor of \<open>logmsg\<close> per call site, carrying the values the f-string
  interpolates) and the method calls it makes, recorded when the call starts.
\<close>

datatype level = DEBUG | INFO | WARNING | ERROR

datatype logmsg =
    Starting_cycle
  | Fetched_unread nat
  | Email_verdict "string option" bool real
  | Attempting_to_participate
  | Skipping_low_confidence
  | Error_processing_email string
  | Cycle_completed
  | Critical_error string

datatype event =
    Log level logmsg
  | Call_fetch_emails string bool int
  | Call_mark_as_read string
  | Call_predict string
  | Call_get_confidence_score string
  | Call_participate_in_giveaway email

record 'w run =
  trace :: "event list"
  world :: "'w"

definition emit :: "event \<Rightarrow> (unit, 'w run) prog" where
  "emit ev = (\<lambda>s. (Inr (), s\<lparr>trace := trace s @ [ev]\<rparr>))"

definition logger :: "level \<Rightarrow> logmsg \<Rightarrow> (unit, 'w run) prog" where
  "logger l m = emit (Log l m)"

definition call :: "event \<Rightarrow> ('a, 'w) prog \<Rightarrow> ('a, 'w run) prog" where
  "call ev f = (\<lambda>s. case f (world s) of
                       (r, w') \<Rightarrow> (r, s\<lparr>trace := trace s @ [ev], world := w'\<rparr>))"

definition newline :: string where
  "newline = [CHR 0x0A]"

definition extract_email_text :: "email \<Rightarrow> string" where
  "extract_email_text email =
     (let subject = dict_get email ''subject'' '''';
          body = dict_get email ''body'' ''''
      in subject @ newline @ body)"

text \<open>The body of the inner \<open>try\<close> of \<open>process_emails\<close>, for one email.\<close>

definition classify_and_act :: "'w ports \<Rightarrow> email \<Rightarrow> (unit, 'w run) prog" where
  "classify_and_act P email =
     (let email_text = extract_email_text email in
      bind (call (Call_predict email_text) (port_predict P email_text)) (\<lambda>prediction.
      bind (call (Call_get_confidence_score email_text)
              (port_get_confidence_score P email_text)) (\<lambda>confidence.
      bind (logger INFO (Email_verdict (map_of email ''subject'') prediction confidence)) (\<lambda>_.
      if prediction \<and> confidence > 0.85 then
        bind (logger INFO Attempting_to_participate) (\<lambda>_.
        bind (call (Call_participate_in_giveaway email)
                (port_participate_in_giveaway P email)) (\<lambda>_.
        ret ()))
      else logger DEBUG Skipping_low_confidence))))"

text \<open>One iteration of the \<open>for\<close> loop: the inner \<open>try\<close> with its handler.\<close>

definition process_email :: "'w ports \<Rightarrow> email \<Rightarrow> (unit, 'w run) prog" where
  "process_email P email =
     try_except (classify_and_act P email)
       (\<lambda>e. logger ERROR (Error_processing_email (exn_str e)))"

fun for_emails :: "'w ports \<Rightarrow> email list \<Rightarrow> (unit, 'w run) prog" where
  "for_emails P [] = ret ()"
| "for_emails P (email # emails) = bind (process_email P email) (\<lambda>_. for_emails P emails)"

text \<open>
  The outer \<open>try\<close> block.  \<open>process_emails\<close> passes the label and the flag;
  \<open>max_results\<close> is the default of \<open>fetch_emails\<close>, 10.
\<close>

definition process_emails_body :: "'w ports \<Rightarrow> (unit, 'w run) prog" where
  "process_emails_body P =
     bind (logger INFO Starting_cycle) (\<lambda>_.
     bind (call (Call_fetch_emails ''Giveaway'' True 10)
             (port_fetch_emails P ''Giveaway'' True 10)) (\<lambda>emails.
     bind (logger INFO (Fetched_unread (length emails))) (\<lambda>_.
     bind (for_emails P emails) (\<lambda>_.
     logger INFO Cycle_completed))))"

definition process_emails :: "'w ports \<Rightarrow> (unit, 'w run) prog" where
  "process_emails P =
     try_except (process_emails_body P) (\<lambda>e. logger ERROR (Critical_error (exn_str e)))"

text \<open>A cycle started on a world, with nothing observed yet.\<close>

definition start :: "'w \<Rightarrow> 'w run" where
  "start w = \<lparr>trace = [], world = w\<rparr>"


section \<open>The world outside the orchestrator\<close>

text \<open>
  The three classes below print, log through the module logger of
  \<open>automation_engine.py\<close>, and call into their libraries.  \<open>outside\<close> is the state of
  everything the libraries reach (mailbox, model, browser); \<open>console\<close> collects what
  the classes themselves write.
\<close>

datatype out = Print string | Engine_log level string

record 'x sys =
  outside :: "'x"
  console :: "out list"

definition extern :: "('a, 'x) prog \<Rightarrow> ('a, 'x sys) prog" where
  "extern f = (\<lambda>s. case f (outside s) of (r, x') \<Rightarrow> (r, s\<lparr>outside := x'\<rparr>))"

definition print :: "string \<Rightarrow> (unit, 'x sys) prog" where
  "print t = (\<lambda>s. (Inr (), s\<lparr>console := console s @ [Print t]\<rparr>))"

definition engine_logger :: "level \<Rightarrow> string \<Rightarrow> (unit, 'x sys) prog" where
  "engine_logger l t = (\<lambda>s. (Inr (), s\<lparr>console := console s @ [Engine_log l t]\<rparr>))"

section \<open>model\_predictor.py\<close>

text \<open>
  A loaded Keras model is its \<open>predict(x, verbose=0)\<close> method, a loaded tokenizer its
  \<open>texts_to_sequences\<close> method; the numpy array a model returns is a list of rows.
  \<open>keras\<close> holds the library functions the module calls: the three it imports and
  Python's own \<open>str.lower\<close>, which maps every cased letter of Unicode and is therefore
  left to the library side.  \<open>max_length\<close> is an attribute only once loading has
  succeeded.
\<close>

type_synonym 'x keras_model = "int list list \<Rightarrow> (real list list, 'x) prog"
type_synonym 'x keras_tokenizer = "string list \<Rightarrow> (int list list, 'x) prog"

record 'x keras =
  load_model :: "string \<Rightarrow> ('x keras_model, 'x) prog"
  pickle_load :: "string \<Rightarrow> ('x keras_tokenizer, 'x) prog"
  pad_sequences :: "int list list \<Rightarrow> nat \<Rightarrow> (int list list, 'x) prog"
  str_lower :: "string \<Rightarrow> string"

record 'x ModelPredictor =
  model :: "'x keras_model option"
  tokenizer :: "'x keras_tokenizer option"
  max_length :: "nat option"

definition ModelPredictor_init ::
  "'x keras \<Rightarrow> string \<Rightarrow> string \<Rightarrow> ('x ModelPredictor, 'x sys) prog" where
  "ModelPredictor_init K model_path tokenizer_path =
     try_except
       (bind (extern (load_model K model_path)) (\<lambda>m.
        bind (extern (pickle_load K tokenizer_path)) (\<lambda>t.
        ret \<lparr>model = Some m, tokenizer = Some t, max_length = Some 100\<rparr>)))
       (\<lambda>e. bind (print (''Error loading model: '' @ exn_str e)) (\<lambda>_.
            ret \<lparr>model = None, tokenizer = None, max_length = None\<rparr>))"

text \<open>
  Reading \<open>self.max_length\<close> when loading has failed is an \<open>AttributeError\<close>; its text
  is Python's.
\<close>

definition preprocess_text ::
  "'x keras \<Rightarrow> 'x ModelPredictor \<Rightarrow> string \<Rightarrow> (int list list option, 'x sys) prog" where
  "preprocess_text K M text =
     (case tokenizer M of
        None \<Rightarrow> ret None
      | Some tok \<Rightarrow>
          (let text = str_lower K text in
           bind (extern (tok [text])) (\<lambda>sequences.
           bind (case max_length M of
                   None \<Rightarrow>
                     raise (Exception (squoted ''ModelPredictor''
                              @ '' object has no attribute '' @ squoted ''max_length''))
                 | Some n \<Rightarrow> ret n) (\<lambda>maxlen.
           bind (extern (pad_sequences K sequences maxlen)) (\<lambda>padded.
           ret (Some padded))))))"

text \<open>
  \<open>prediction[0][0]\<close> on the array the model returns: out of range is numpy's
  \<open>IndexError\<close>, whose text is the same for an array with no row and for a row with no
  entry.
\<close>

definition item00 :: "real list list \<Rightarrow> (real, 's) prog" where
  "item00 prediction =
     (case prediction of
        [] \<Rightarrow> raise (Exception ''index 0 is out of bounds for axis 0 with size 0'')
      | row # _ \<Rightarrow>
          (case row of
             [] \<Rightarrow> raise (Exception ''index 0 is out of bounds for axis 0 with size 0'')
           | v # _ \<Rightarrow> ret v))"

definition predict :: "'x keras \<Rightarrow> 'x ModelPredictor \<Rightarrow> string \<Rightarrow> (bool, 'x sys) prog" where
  "predict K M email_text =
     (case model M of
        None \<Rightarrow> bind (print ''Model not loaded'') (\<lambda>_. ret False)
      | Some mdl \<Rightarrow>
          (case tokenizer M of
             None \<Rightarrow> bind (print ''Model not loaded'') (\<lambda>_. ret False)
           | Some _ \<Rightarrow>
               try_except
                 (bind (preprocess_text K M email_text) (\<lambda>processed.
                    case processed of
                      None \<Rightarrow> ret False
                    | Some x \<Rightarrow>
                        bind (extern (mdl x)) (\<lambda>prediction.
                        bind (item00 prediction) (\<lambda>v.
                        ret (v > 0.5)))))
                 (\<lambda>e. bind (print (''Prediction error: '' @ exn_str e)) (\<lambda>_. ret False))))"

definition get_confidence_score ::
  "'x keras \<Rightarrow> 'x ModelPredictor \<Rightarrow> string \<Rightarrow> (real, 'x sys) prog" where
  "get_confidence_score K M email_text =
     (case model M of
        None \<Rightarrow> ret 0
      | Some mdl \<Rightarrow>
          (case tokenizer M of
             None \<Rightarrow> ret 0
           | Some _ \<Rightarrow>
               try_except
                 (bind (preprocess_text K M email_text) (\<lambda>processed.
                    case processed of
                      None \<Rightarrow> ret 0
                    | Some x \<Rightarrow>
                        bind (extern (mdl x)) (\<lambda>prediction.
                        bind (item00 prediction) (\<lambda>v.
                        ret v))))
                 (\<lambda>e. bind (print (''Confidence score error: '' @ exn_str e)) (\<lambda>_. ret 0))))"

text \<open>\<open>[self.predict(email) for email in email_list]\<close>\<close>

fun predict_batch ::
  "'x keras \<Rightarrow> 'x ModelPredictor \<Rightarrow> string list \<Rightarrow> (bool list, 'x sys) prog" where
  "predict_batch K M [] = ret []"
| "predict_batch K M (email # email_list) =
     bind (predict K M email) (\<lambda>b.
     bind (predict_batch K M email_list) (\<lambda>bs.
     ret (b # bs)))"


section \<open>automation\_engine.py\<close>

subsection \<open>The link pattern\<close>

text \<open>
  \<open>_extract_link\<close> hands \<open>re.findall\<close> the pattern
  \<^verbatim>\<open>http[s]?://(?:[a-zA-Z]|[0-9]|[$-_@.&+]|[!*\(\),]|(?:%[0-9a-fA-F][0-9a-fA-F]))+\<close>.
  The functions below are the backtracking matcher run on this pattern, piece by piece
  and in the pattern's order.  Inside the third class, \<open>$-_\<close> is a range: the
  characters from code 36 to code 95.
\<close>

definition char_in :: "char \<Rightarrow> char \<Rightarrow> char \<Rightarrow> bool" where
  "char_in lo hi c = ((of_char lo :: nat) \<le> of_char c \<and> (of_char c :: nat) \<le> of_char hi)"

definition alt_letter :: "char \<Rightarrow> bool" where
  "alt_letter c = (char_in CHR ''a'' CHR ''z'' c \<or> char_in CHR ''A'' CHR ''Z'' c)"

definition alt_digit :: "char \<Rightarrow> bool" where
  "alt_digit c = char_in CHR ''0'' CHR ''9'' c"

definition alt_punct :: "char \<Rightarrow> bool" where
  "alt_punct c = (char_in CHR ''$'' CHR ''_'' c \<or> c = CHR ''@'' \<or> c = CHR ''.''
                  \<or> c = CHR ''&'' \<or> c = CHR ''+'')"

definition alt_sub :: "char \<Rightarrow> bool" where
  "alt_sub c = (c = CHR ''!'' \<or> c = CHR ''*'' \<or> c = CHR ''('' \<or> c = CHR '')'' \<or> c = CHR '','')"

definition hex_digit :: "char \<Rightarrow> bool" where
  "hex_digit c = (char_in CHR ''0'' CHR ''9'' c \<or> char_in CHR ''a'' CHR ''f'' c
                  \<or> char_in CHR ''A'' CHR ''F'' c)"

text \<open>
  One pass through the group \<open>(?: ... | ... )\<close>: the first alternative that matches
  decides; the result is what it consumed and what is left.
\<close>

fun match_group :: "string \<Rightarrow> (string \<times> string) option" where
  "match_group [] = None"
| "match_group (c # cs) =
     (if alt_letter c then Some ([c], cs)
      else if alt_digit c then Some ([c], cs)
      else if alt_punct c then Some ([c], cs)
      else if alt_sub c then Some ([c], cs)
      else (case cs of
              h1 # h2 # rest \<Rightarrow>
                if c = CHR ''%'' \<and> hex_digit h1 \<and> hex_digit h2
                then Some ([c, h1, h2], rest) else None
            | _ \<Rightarrow> None))"

lemma match_group_shorter: "match_group s = Some (m, r) \<Longrightarrow> length r < length s"
  by (cases s) (auto split: if_splits list.splits)

text \<open>
  The greedy repetition, which ends the pattern: it takes passes for as long as one
  matches, and nothing after it can fail and make it give one back.
\<close>

function match_repeat :: "string \<Rightarrow> string \<times> string" where
  "match_repeat s =
     (case match_group s of
        None \<Rightarrow> ([], s)
      | Some (m, r) \<Rightarrow> (case match_repeat r of (ms, r') \<Rightarrow> (m @ ms, r')))"
  by pat_completeness auto
termination
  by (relation "measure length") (auto dest: match_group_shorter)

declare match_repeat.simps [simp del]

fun strip_prefix :: "string \<Rightarrow> string \<Rightarrow> string option" where
  "strip_prefix [] s = Some s"
| "strip_prefix (p # ps) [] = None"
| "strip_prefix (p # ps) (c # cs) = (if p = c then strip_prefix ps cs else None)"

text \<open>\<open>://\<close> and then one pass or more.\<close>

definition match_tail :: "string \<Rightarrow> (string \<times> string) option" where
  "match_tail s =
     (case strip_prefix ''://'' s of
        None \<Rightarrow> None
      | Some r \<Rightarrow>
          (case match_repeat r of
             (ms, r') \<Rightarrow> if ms = [] then None else Some (''://'' @ ms, r')))"

text \<open>
  The whole pattern tried at the start of \<open>s\<close>: \<open>http\<close>, then \<open>[s]?\<close> which takes an
  \<open>s\<close> when there is one and gives it back if the rest then fails.
\<close>

definition match_url :: "string \<Rightarrow> (string \<times> string) option" where
  "match_url s =
     (case strip_prefix ''http'' s of
        None \<Rightarrow> None
      | Some r \<Rightarrow>
          (case r of
             c # cs \<Rightarrow>
               if c = CHR ''s'' then
                 (case match_tail cs of
                    Some (m, r') \<Rightarrow> Some (''https'' @ m, r')
                  | None \<Rightarrow>
                      (case match_tail r of
                         Some (m, r') \<Rightarrow> Some (''http'' @ m, r')
                       | None \<Rightarrow> None))
               else
                 (case match_tail r of
                    Some (m, r') \<Rightarrow> Some (''http'' @ m, r')
                  | None \<Rightarrow> None)
           | [] \<Rightarrow> None))"

lemma strip_prefix_shorter: "strip_prefix p s = Some r \<Longrightarrow> length r \<le> length s"
  by (induction p s rule: strip_prefix.induct) (auto split: if_splits)

lemma match_repeat_shorter: "match_repeat s = (ms, r) \<Longrightarrow> length r \<le> length s"
proof (induction s arbitrary: ms r rule: match_repeat.induct)
  case (1 s)
  show ?case
  proof (cases "match_group s")
    case None
    with "1.prems" show ?thesis by (simp add: match_repeat.simps [of s])
  next
    case (Some p)
    obtain m r0 where p: "p = (m, r0)" by (cases p)
    obtain ms0 r1 where rec: "match_repeat r0 = (ms0, r1)" by (cases "match_repeat r0")
    from "1.IH" [OF Some p [symmetric] rec] have "length r1 \<le> length r0" .
    moreover from Some p have "length r0 < length s" by (auto dest: match_group_shorter)
    moreover from "1.prems" Some p rec have "r = r1"
      by (simp add: match_repeat.simps [of s])
    ultimately show ?thesis by simp
  qed
qed

lemma match_tail_shorter: "match_tail s = Some (m, r) \<Longrightarrow> length r < length s"
proof -
  assume a: "match_tail s = Some (m, r)"
  then obtain r0 where r0: "strip_prefix ''://'' s = Some r0"
    by (auto simp: match_tail_def split: option.splits)
  then have "length r0 < length s"
    by (cases s) (auto split: if_splits dest: strip_prefix_shorter)
  moreover from a r0 have "length r \<le> length r0"
    by (auto simp: match_tail_def split: prod.splits if_splits dest: match_repeat_shorter)
  ultimately show ?thesis by simp
qed

lemma match_url_shorter: "match_url s = Some (m, r) \<Longrightarrow> length r < length s"
proof -
  assume a: "match_url s = Some (m, r)"
  then obtain r0 where r0: "strip_prefix ''http'' s = Some r0"
    by (auto simp: match_url_def split: option.splits)
  then have le: "length r0 \<le> length s" by (rule strip_prefix_shorter)
  from a r0 show ?thesis using le
    by (auto simp: match_url_def split: list.splits if_splits option.splits
        dest!: match_tail_shorter)
qed

text \<open>
  \<open>re.findall\<close>: the matches from left to right, each search starting where the
  match before it ended.
\<close>

function findall :: "string \<Rightarrow> string list" where
  "findall [] = []"
| "findall (c # cs) =
     (case match_url (c # cs) of
        Some (m, r) \<Rightarrow> m # findall r
      | None \<Rightarrow> findall cs)"
  by pat_completeness auto
termination
  by (relation "measure length") (auto dest: match_url_shorter)

definition extract_link :: "string \<Rightarrow> string option" where
  "extract_link text = (case findall text of [] \<Rightarrow> None | url # _ \<Rightarrow> Some url)"

subsection \<open>The engine\<close>

text \<open>
  A Selenium element is its \<open>send_keys\<close> and \<open>click\<close> methods, a driver its \<open>get\<close> and
  its \<open>find_elements(By.CSS_SELECTOR, selector)\<close>.  \<open>chrome\<close> below is
  \<open>webdriver.Chrome(options=...)\<close>, given the arguments added to the options.
\<close>

record 'x WebElement =
  send_keys :: "string \<Rightarrow> (unit, 'x) prog"
  click :: "(unit, 'x) prog"

record 'x WebDriver =
  get :: "string \<Rightarrow> (unit, 'x) prog"
  find_elements :: "string \<Rightarrow> ('x WebElement list, 'x) prog"

record 'x AutomationEngine =
  driver :: "'x WebDriver option"
  headless :: bool

definition init_driver ::
  "(string list \<Rightarrow> ('x WebDriver, 'x) prog) \<Rightarrow> bool \<Rightarrow> ('x WebDriver option, 'x sys) prog" where
  "init_driver chrome hl =
     try_except
       (let options = (if hl then [''--headless''] else [])
                      @ [''--no-sandbox'', ''--disable-dev-shm-usage''] in
        bind (extern (chrome options)) (\<lambda>d.
        bind (engine_logger INFO ''Chrome WebDriver initialized'') (\<lambda>_.
        ret (Some d))))
       (\<lambda>e. bind (engine_logger ERROR (''Error initializing WebDriver: '' @ exn_str e)) (\<lambda>_.
            ret None))"

definition AutomationEngine_init ::
  "(string list \<Rightarrow> ('x WebDriver, 'x) prog) \<Rightarrow> bool \<Rightarrow> ('x AutomationEngine, 'x sys) prog" where
  "AutomationEngine_init chrome hl =
     bind (init_driver chrome hl) (\<lambda>d.
     bind (engine_logger INFO ''Automation Engine initialized'') (\<lambda>_.
     ret \<lparr>driver = d, headless = hl\<rparr>))"

definition quoted :: "string \<Rightarrow> string" where
  "quoted t = [CHR 0x22] @ t @ [CHR 0x22]"

definition fill_form :: "'x WebDriver \<Rightarrow> email \<Rightarrow> (unit, 'x sys) prog" where
  "fill_form d email_data =
     try_except
       (bind (extern (find_elements d (''input[type='' @ quoted ''email'' @ '']''))) (\<lambda>email_fields.
        bind (case email_fields of
                [] \<Rightarrow> ret ()
              | field # _ \<Rightarrow>
                  bind (extern (send_keys field (dict_get email_data ''from'' ''''))) (\<lambda>_.
                  engine_logger INFO ''Email field filled'')) (\<lambda>_.
        bind (extern (find_elements d (''input[type='' @ quoted ''text'' @ '']''))) (\<lambda>name_fields.
        case name_fields of
          [] \<Rightarrow> ret ()
        | field # _ \<Rightarrow>
            bind (extern (send_keys field ''Participant'')) (\<lambda>_.
            engine_logger INFO ''Name field filled'')))))
       (\<lambda>e. engine_logger WARNING (''Error filling form: '' @ exn_str e))"

definition submit_form :: "'x WebDriver \<Rightarrow> (unit, 'x sys) prog" where
  "submit_form d =
     try_except
       (bind (extern (find_elements d
                (''button[type='' @ quoted ''submit'' @ ''], input[type='' @ quoted ''submit''
                 @ '']''))) (\<lambda>submit_buttons.
        case submit_buttons of
          [] \<Rightarrow> ret ()
        | button # _ \<Rightarrow>
            bind (extern (click button)) (\<lambda>_.
            engine_logger INFO ''Form submitted'')))
       (\<lambda>e. engine_logger WARNING (''Error submitting form: '' @ exn_str e))"

definition participate_in_giveaway :: "'x AutomationEngine \<Rightarrow> email \<Rightarrow> (bool, 'x sys) prog" where
  "participate_in_giveaway E email_data =
     (case driver E of
        None \<Rightarrow> bind (engine_logger ERROR ''WebDriver not initialized'') (\<lambda>_. ret False)
      | Some d \<Rightarrow>
          try_except
            (let giveaway_url = extract_link (dict_get email_data ''body'' '''') in
             case giveaway_url of
               None \<Rightarrow> bind (engine_logger WARNING ''No giveaway link found'') (\<lambda>_. ret False)
             | Some url \<Rightarrow>
                 if url = [] then
                   bind (engine_logger WARNING ''No giveaway link found'') (\<lambda>_. ret False)
                 else
                   bind (engine_logger INFO (''Navigating to giveaway: '' @ url)) (\<lambda>_.
                   bind (extern (get d url)) (\<lambda>_.
                   bind (fill_form d email_data) (\<lambda>_.
                   bind (submit_form d) (\<lambda>_.
                   bind (engine_logger INFO ''Successfully participated in giveaway'') (\<lambda>_.
                   ret True))))))
            (\<lambda>e. bind (engine_logger ERROR
                          (''Error during giveaway participation: '' @ exn_str e)) (\<lambda>_.
                 ret False)))"

section \<open>email\_handler.py\<close>

text \<open>
  The Gmail service is the three requests the class sends with \<open>userId='me'\<close>:
  \<open>messages().list(q, maxResults)\<close>, \<open>messages().get(id, format='full')\<close> and
  \<open>messages().modify(id, removeLabelIds)\<close>, each with its \<open>execute()\<close>.  A listing
  answers with the value under \<open>'messages'\<close>, when there is one: dictionaries that
  carry an \<open>'id'\<close>.  A message follows the Gmail schema: its payload has headers
  (name and value), a body whose \<open>'data'\<close> may be missing, and possibly parts, each with
  a MIME type and such a body.  \<open>decode\<close> is
  \<open>base64.urlsafe_b64decode(data).decode('utf-8')\<close>.
\<close>

record part =
  mimeType :: string
  part_data :: "string option"

record message =
  headers :: "(string \<times> string) list"
  parts :: "part list option"
  body_data :: "string option"

record 'x gmail =
  messages_list :: "string \<Rightarrow> int \<Rightarrow> ((string \<times> string) list list option, 'x) prog"
  messages_get :: "string \<Rightarrow> (message, 'x) prog"
  messages_modify :: "string \<Rightarrow> string list \<Rightarrow> (unit, 'x) prog"

record 'x EmailHandler =
  service :: "'x gmail"
  decode :: "string \<Rightarrow> exn + string"

definition lift :: "exn + 'a \<Rightarrow> ('a, 's) prog" where
  "lift r = (\<lambda>s. (r, s))"

text \<open>The loop over \<open>payload['parts']\<close>, which returns from inside.\<close>

fun body_of_parts :: "(string \<Rightarrow> exn + string) \<Rightarrow> part list \<Rightarrow> (string, 's) prog" where
  "body_of_parts dec [] = ret ''''"
| "body_of_parts dec (p # ps) =
     (if mimeType p = ''text/plain'' then
        (let data = (case part_data p of None \<Rightarrow> '''' | Some d \<Rightarrow> d) in
         if data \<noteq> '''' then lift (dec data) else body_of_parts dec ps)
      else body_of_parts dec ps)"

definition get_email_body :: "(string \<Rightarrow> exn + string) \<Rightarrow> message \<Rightarrow> (string, 's) prog" where
  "get_email_body dec payload =
     (case parts payload of
        Some ps \<Rightarrow> body_of_parts dec ps
      | None \<Rightarrow>
          (let data = (case body_data payload of None \<Rightarrow> '''' | Some d \<Rightarrow> d) in
           if data \<noteq> '''' then lift (dec data) else ret ''''))"

text \<open>\<open>next((h['value'] for h in headers if h['name'] == name), default)\<close>\<close>

definition header_value :: "(string \<times> string) list \<Rightarrow> string \<Rightarrow> string \<Rightarrow> string" where
  "header_value hs name dflt =
     (case filter (\<lambda>h. fst h = name) hs of [] \<Rightarrow> dflt | h # _ \<Rightarrow> snd h)"

definition parse_email :: "'x EmailHandler \<Rightarrow> string \<Rightarrow> (email option, 'x sys) prog" where
  "parse_email H msg_id =
     try_except
       (bind (extern (messages_get (service H) msg_id)) (\<lambda>message.
        let subject = header_value (headers message) ''Subject'' ''No Subject'';
            sender = header_value (headers message) ''From'' ''Unknown''
        in
        bind (get_email_body (decode H) message) (\<lambda>body.
        ret (Some [(''id'', msg_id), (''subject'', subject), (''from'', sender),
                   (''body'', body)]))))
       (\<lambda>e. bind (print (''Error parsing email '' @ msg_id @ '': '' @ exn_str e)) (\<lambda>_.
            ret None))"

text \<open>
  \<open>msg['id']\<close>: a missing key is a \<open>KeyError\<close>, which \<open>str\<close> renders as the key between
  quotes.
\<close>

definition subscript :: "(string \<times> string) list \<Rightarrow> string \<Rightarrow> (string, 's) prog" where
  "subscript d k =
     (case map_of d k of None \<Rightarrow> raise (Exception (squoted k)) | Some v \<Rightarrow> ret v)"

text \<open>The loop of \<open>fetch_emails\<close> over the listed messages, \<open>emails\<close> growing by \<open>append\<close>.\<close>

fun parse_all ::
  "'x EmailHandler \<Rightarrow> (string \<times> string) list list \<Rightarrow> email list \<Rightarrow> (email list, 'x sys) prog" where
  "parse_all H [] emails = ret emails"
| "parse_all H (msg # messages) emails =
     bind (subscript msg ''id'') (\<lambda>msg_id.
     bind (parse_email H msg_id) (\<lambda>email_data.
     case email_data of
       None \<Rightarrow> parse_all H messages emails
     | Some d \<Rightarrow>
         if d \<noteq> [] then parse_all H messages (emails @ [d])
         else parse_all H messages emails))"

definition fetch_emails ::
  "'x EmailHandler \<Rightarrow> string \<Rightarrow> bool \<Rightarrow> int \<Rightarrow> (email list, 'x sys) prog" where
  "fetch_emails H label unread_only max_results =
     try_except_HttpError
       (let query = ''label:'' @ label;
            query = (if unread_only then query @ '' is:unread'' else query)
        in
        bind (extern (messages_list (service H) query max_results)) (\<lambda>results.
        let messages = (case results of None \<Rightarrow> [] | Some ms \<Rightarrow> ms) in
        parse_all H messages []))
       (\<lambda>error. bind (print (''An error occurred: '' @ exn_str error)) (\<lambda>_. ret []))"

definition mark_as_read :: "'x EmailHandler \<Rightarrow> string \<Rightarrow> (bool, 'x sys) prog" where
  "mark_as_read H msg_id =
     try_except_HttpError
       (bind (extern (messages_modify (service H) msg_id [''UNREAD''])) (\<lambda>_. ret True))
       (\<lambda>error. bind (print (''Error marking email as read: '' @ exn_str error)) (\<lambda>_.
            ret False))"

section \<open>The system as \<open>EmailAutomationSystem.__init__\<close> wires it\<close>

definition system_ports ::
  "'x EmailHandler \<Rightarrow> 'x keras \<Rightarrow> 'x ModelPredictor \<Rightarrow> 'x AutomationEngine \<Rightarrow> 'x sys ports" where
  "system_ports H K M E =
     \<lparr>port_fetch_emails = fetch_emails H,
      port_mark_as_read = mark_as_read H,
      port_predict = predict K M,
      port_get_confidence_score = get_confidence_score K M,
      port_participate_in_giveaway = participate_in_giveaway E\<rparr>"

section \<open>Observing a cycle\<close>

text \<open>
  What the claims talk about, read off the trace: the emails handed to
  \<open>participate_in_giveaway\<close>, the entries logged at level ERROR, and the texts handed to
  \<open>predict\<close>.  \<open>gate_fires\<close> is the gate as the specification words it: the label the
  classifier returns for the text is true and the confidence it returns is above 0.85.
  \<open>failure\<close> is the exception, if any, raised for an email by the first of the methods
  called for it that raises: \<open>predict\<close>, then \<open>get_confidence_score\<close>, then, when the
  gate has fired, \<open>participate_in_giveaway\<close>.  \<open>world_after\<close> is the world these calls
  leave behind: the one after \<open>predict\<close> if it raised, else the one after
  \<open>get_confidence_score\<close>, and, when the gate has fired, the one after
  \<open>participate_in_giveaway\<close> has run in it.  \<open>starts\<close> lists the worlds in which the
  emails of a batch are taken up in turn.  All four are written from the ports alone.
\<close>

definition participations :: "event list \<Rightarrow> email list" where
  "participations t = [e. Call_participate_in_giveaway e \<leftarrow> t]"

definition errors_logged :: "event list \<Rightarrow> logmsg list" where
  "errors_logged t = [m. Log ERROR m \<leftarrow> t]"

definition predict_calls :: "event list \<Rightarrow> string list" where
  "predict_calls t = [x. Call_predict x \<leftarrow> t]"

definition gate_fires :: "'w ports \<Rightarrow> email \<Rightarrow> 'w \<Rightarrow> bool" where
  "gate_fires P email w =
     (case port_predict P (extract_email_text email) w of
        (Inl e, w1) \<Rightarrow> False
      | (Inr label, w1) \<Rightarrow>
          (case port_get_confidence_score P (extract_email_text email) w1 of
             (Inl e, w2) \<Rightarrow> False
           | (Inr c, w2) \<Rightarrow> label = True \<and> c > 0.85))"

definition failure :: "'w ports \<Rightarrow> email \<Rightarrow> 'w \<Rightarrow> exn option" where
  "failure P email w =
     (case port_predict P (extract_email_text email) w of
        (Inl e, w1) \<Rightarrow> Some e
      | (Inr label, w1) \<Rightarrow>
          (case port_get_confidence_score P (extract_email_text email) w1 of
             (Inl e, w2) \<Rightarrow> Some e
           | (Inr c, w2) \<Rightarrow>
               if label = True \<and> c > 0.85 then
                 (case port_participate_in_giveaway P email w2 of
                    (Inl e, w3) \<Rightarrow> Some e
                  | (Inr r, w3) \<Rightarrow> None)
               else None))"

definition world_after :: "'w ports \<Rightarrow> email \<Rightarrow> 'w \<Rightarrow> 'w" where
  "world_after P email w =
     (case port_predict P (extract_email_text email) w of
        (Inl e, w1) \<Rightarrow> w1
      | (Inr label, w1) \<Rightarrow>
          (case port_get_confidence_score P (extract_email_text email) w1 of
             (Inl e, w2) \<Rightarrow> w2
           | (Inr c, w2) \<Rightarrow>
               if label = True \<and> c > 0.85 then snd (port_participate_in_giveaway P email w2)
               else w2))"

fun starts :: "'w ports \<Rightarrow> email list \<Rightarrow> 'w \<Rightarrow> 'w list" where
  "starts P [] w = []"
| "starts P (email # emails) w = w # starts P emails (world_after P email w)"

lemma participations_append [simp]: "participations (a @ b) = participations a @ participations b"
  by (simp add: participations_def)

lemma errors_logged_append [simp]: "errors_logged (a @ b) = errors_logged a @ errors_logged b"
  by (simp add: errors_logged_def)

lemma predict_calls_append [simp]: "predict_calls (a @ b) = predict_calls a @ predict_calls b"
  by (simp add: predict_calls_def)

lemma participations_simps:
  "participations [] = []"
  "participations (Log l m # t) = participations t"
  "participations (Call_fetch_emails a b c # t) = participations t"
  by (simp_all add: participations_def)

lemma errors_logged_simps:
  "errors_logged [] = []"
  "errors_logged (Log INFO m # t) = errors_logged t"
  "errors_logged (Call_fetch_emails a b c # t) = errors_logged t"
  by (simp_all add: errors_logged_def)

lemma predict_calls_simps:
  "predict_calls [] = []"
  "predict_calls (Log l m # t) = predict_calls t"
  "predict_calls (Call_fetch_emails a b c # t) = predict_calls t"
  by (simp_all add: predict_calls_def)

lemmas run_defs = process_email_def classify_and_act_def try_except_def bind_def call_def
  logger_def emit_def ret_def start_def Let_def

lemma process_email_run:
  "process_email P e s =
     (Inr (), \<lparr>trace = trace s @ trace (snd (process_email P e (start (world s)))),
               world = world (snd (process_email P e (start (world s))))\<rparr>)"
  by (auto simp: run_defs split: prod.splits sum.splits)

lemma for_emails_run:
  "for_emails P es s =
     (Inr (), \<lparr>trace = trace s @ trace (snd (for_emails P es (start (world s)))),
               world = world (snd (for_emails P es (start (world s))))\<rparr>)"
proof (induction es arbitrary: s)
  case Nil
  show ?case by (simp add: ret_def start_def)
next
  case (Cons e es)
  define s1 where "s1 = snd (process_email P e s)"
  have s1: "process_email P e s = (Inr (), s1)"
    using process_email_run [of P e s] by (simp add: s1_def)
  have t1: "trace s1 = trace s @ trace (snd (process_email P e (start (world s))))"
    using process_email_run [of P e s] by (simp add: s1_def)
  have w1: "world s1 = world (snd (process_email P e (start (world s))))"
    using process_email_run [of P e s] by (simp add: s1_def)
  obtain s0 where s0: "process_email P e (start (world s)) = (Inr (), s0)"
    using process_email_run [of P e "start (world s)"] by simp
  have a: "for_emails P (e # es) s = for_emails P es s1"
    using s1 by (simp add: bind_def)
  have b: "for_emails P (e # es) (start (world s)) = for_emails P es s0"
    using s0 by (simp add: bind_def)
  have w01: "world s0 = world s1" using s0 w1 by simp
  have t01: "trace s1 = trace s @ trace s0" using s0 t1 by simp
  define T where "T = trace (snd (for_emails P es (start (world s1))))"
  define W where "W = world (snd (for_emails P es (start (world s1))))"
  have i1: "for_emails P es s1 = (Inr (), \<lparr>trace = trace s1 @ T, world = W\<rparr>)"
    unfolding T_def W_def by (rule Cons.IH)
  have i0: "for_emails P es s0 = (Inr (), \<lparr>trace = trace s0 @ T, world = W\<rparr>)"
    unfolding T_def W_def w01 [symmetric] by (rule Cons.IH)
  show ?case
    unfolding a b i1 i0 by (simp add: t01)
qed

lemma process_email_participations:
  "participations (trace (snd (process_email P e (start w)))) =
     (if gate_fires P e w then [e] else [])"
  by (auto simp: run_defs gate_fires_def participations_def split: prod.splits sum.splits)

lemma process_email_errors:
  "errors_logged (trace (snd (process_email P e (start w)))) =
     (case failure P e w of Some x \<Rightarrow> [Error_processing_email (exn_str x)] | None \<Rightarrow> [])"
  by (auto simp: run_defs failure_def errors_logged_def split: prod.splits sum.splits)

lemma process_email_world:
  "world (snd (process_email P e (start w))) = world_after P e w"
  by (auto simp: run_defs world_after_def split: prod.splits sum.splits)

lemma process_email_predict_calls:
  "predict_calls (trace (snd (process_email P e (start w)))) = [extract_email_text e]"
  by (auto simp: run_defs predict_calls_def split: prod.splits sum.splits)

lemma for_emails_Cons_start:
  "for_emails P (e # es) (start w) =
     (Inr (), \<lparr>trace = trace (snd (process_email P e (start w)))
                  @ trace (snd (for_emails P es (start (world (snd (process_email P e (start w))))))),
               world = world (snd (for_emails P es (start (world (snd (process_email P e (start w)))))))\<rparr>)"
proof -
  obtain s1 where s1: "process_email P e (start w) = (Inr (), s1)"
    using process_email_run [of P e "start w"] by simp
  have "for_emails P (e # es) (start w) = for_emails P es s1"
    using s1 by (simp add: bind_def)
  then show ?thesis using s1 by (simp add: for_emails_run [of P es s1])
qed

lemma for_emails_participations:
  "participations (trace (snd (for_emails P es (start w)))) =
     map fst (filter (\<lambda>(e, w'). gate_fires P e w') (zip es (starts P es w)))"
proof (induction es arbitrary: w)
  case Nil
  show ?case by (simp add: ret_def start_def participations_def)
next
  case (Cons e es)
  show ?case
    by (simp add: for_emails_Cons_start process_email_participations process_email_world
        Cons.IH del: for_emails.simps)
qed

lemma for_emails_errors:
  "errors_logged (trace (snd (for_emails P es (start w)))) =
     concat (map (\<lambda>(e, w'). case failure P e w' of
                                Some x \<Rightarrow> [Error_processing_email (exn_str x)] | None \<Rightarrow> [])
                 (zip es (starts P es w)))"
proof (induction es arbitrary: w)
  case Nil
  show ?case by (simp add: ret_def start_def errors_logged_def)
next
  case (Cons e es)
  show ?case
    by (simp add: for_emails_Cons_start process_email_errors process_email_world Cons.IH
        del: for_emails.simps)
qed

lemma for_emails_predict_calls:
  "predict_calls (trace (snd (for_emails P es (start w)))) = map extract_email_text es"
proof (induction es arbitrary: w)
  case Nil
  show ?case by (simp add: ret_def start_def predict_calls_def)
next
  case (Cons e es)
  show ?case
    by (simp add: for_emails_Cons_start process_email_predict_calls Cons.IH
        del: for_emails.simps)
qed

lemma for_emails_world:
  "world (snd (for_emails P es (start w))) = foldl (\<lambda>w' e. world_after P e w') w es"
proof (induction es arbitrary: w)
  case Nil
  show ?case by (simp add: ret_def start_def)
next
  case (Cons e es)
  show ?case
    by (simp add: for_emails_Cons_start process_email_world Cons.IH del: for_emails.simps)
qed

lemma process_emails_fetched:
  assumes "port_fetch_emails P ''Giveaway'' True 10 w = (Inr es, w1)"
  shows "process_emails P (start w) =
     (Inr (), \<lparr>trace = [Log INFO Starting_cycle, Call_fetch_emails ''Giveaway'' True 10,
                        Log INFO (Fetched_unread (length es))]
                       @ trace (snd (for_emails P es (start w1))) @ [Log INFO Cycle_completed],
               world = world (snd (for_emails P es (start w1)))\<rparr>)"
  using assms
  by (simp add: process_emails_def process_emails_body_def try_except_def bind_def call_def
      logger_def emit_def start_def
      for_emails_run [of P es "\<lparr>trace = [Log INFO Starting_cycle, Call_fetch_emails ''Giveaway'' True 10,
                        Log INFO (Fetched_unread (length es))], world = w1\<rparr>"])

lemma process_emails_fetch_failed:
  assumes "port_fetch_emails P ''Giveaway'' True 10 w = (Inl e, w1)"
  shows "process_emails P (start w) =
     (Inr (), \<lparr>trace = [Log INFO Starting_cycle, Call_fetch_emails ''Giveaway'' True 10,
                        Log ERROR (Critical_error (exn_str e))],
               world = w1\<rparr>)"
  using assms
  by (simp add: process_emails_def process_emails_body_def try_except_def bind_def call_def
      logger_def emit_def start_def)

text \<open>
  The calls to \<open>mark_as_read\<close> in a trace, and what it means for the methods a cycle does
  call to leave an observation \<open>obs\<close> of the world (such as the read-state of every
  message) as they found it.
\<close>

definition mark_as_read_calls :: "event list \<Rightarrow> string list" where
  "mark_as_read_calls t = [i. Call_mark_as_read i \<leftarrow> t]"

definition preserves :: "('w \<Rightarrow> 'r) \<Rightarrow> ('a, 'w) prog \<Rightarrow> bool" where
  "preserves obs f = (\<forall>w. obs (snd (f w)) = obs w)"

definition ports_preserve :: "('w \<Rightarrow> 'r) \<Rightarrow> 'w ports \<Rightarrow> bool" where
  "ports_preserve obs P =
     ((\<forall>label unread_only max_results.
          preserves obs (port_fetch_emails P label unread_only max_results))
      \<and> (\<forall>t. preserves obs (port_predict P t))
      \<and> (\<forall>t. preserves obs (port_get_confidence_score P t))
      \<and> (\<forall>e. preserves obs (port_participate_in_giveaway P e)))"

lemma mark_as_read_calls_append [simp]:
  "mark_as_read_calls (a @ b) = mark_as_read_calls a @ mark_as_read_calls b"
  by (simp add: mark_as_read_calls_def)

lemma mark_as_read_calls_simps:
  "mark_as_read_calls [] = []"
  "mark_as_read_calls (Log l m # t) = mark_as_read_calls t"
  "mark_as_read_calls (Call_fetch_emails a b c # t) = mark_as_read_calls t"
  by (simp_all add: mark_as_read_calls_def)

lemma start_simps [simp]: "world (start w) = w" "trace (start w) = []"
  by (simp_all add: start_def)

lemma process_email_mark_calls:
  "mark_as_read_calls (trace (snd (process_email P e (start w)))) = []"
  by (auto simp: run_defs mark_as_read_calls_def split: prod.splits sum.splits)

lemma for_emails_mark_calls:
  "mark_as_read_calls (trace (snd (for_emails P es (start w)))) = []"
proof (induction es arbitrary: w)
  case Nil
  show ?case by (simp add: ret_def start_def mark_as_read_calls_def)
next
  case (Cons e es)
  show ?case
    by (simp add: for_emails_Cons_start process_email_mark_calls Cons.IH del: for_emails.simps)
qed

lemma process_emails_mark_calls:
  "mark_as_read_calls (trace (snd (process_emails P (start w)))) = []"
proof (cases "port_fetch_emails P ''Giveaway'' True 10 w")
  case (Pair r w1)
  show ?thesis
  proof (cases r)
    case (Inl e)
    with Pair show ?thesis
      by (simp add: process_emails_fetch_failed mark_as_read_calls_simps)
  next
    case (Inr es)
    with Pair show ?thesis
      by (simp add: process_emails_fetched for_emails_mark_calls mark_as_read_calls_simps)
  qed
qed

lemma process_email_ignores_mark:
  "process_email (P\<lparr>port_mark_as_read := f\<rparr>) e = process_email P e"
  by (simp add: process_email_def classify_and_act_def cong: if_cong)

lemma for_emails_ignores_mark:
  "for_emails (P\<lparr>port_mark_as_read := f\<rparr>) es = for_emails P es"
  by (induction es) (simp_all add: process_email_ignores_mark)

lemma process_emails_ignores_mark:
  "process_emails (P\<lparr>port_mark_as_read := f\<rparr>) = process_emails P"
  by (simp add: process_emails_def process_emails_body_def for_emails_ignores_mark)

lemma process_email_preserves:
  assumes "ports_preserve obs P"
  shows "obs (world (snd (process_email P e s))) = obs (world s)"
proof -
  let ?t = "extract_email_text e"
  obtain r1 w1 where p1: "port_predict P ?t (world s) = (r1, w1)"
    by (cases "port_predict P ?t (world s)")
  obtain r2 w2 where p2: "port_get_confidence_score P ?t w1 = (r2, w2)"
    by (cases "port_get_confidence_score P ?t w1")
  obtain r3 w3 where p3: "port_participate_in_giveaway P e w2 = (r3, w3)"
    by (cases "port_participate_in_giveaway P e w2")
  from assms have "obs (snd (port_predict P ?t (world s))) = obs (world s)"
    by (simp add: ports_preserve_def preserves_def)
  with p1 have o1: "obs w1 = obs (world s)" by simp
  from assms have "obs (snd (port_get_confidence_score P ?t w1)) = obs w1"
    by (simp add: ports_preserve_def preserves_def)
  with p2 have o2: "obs w2 = obs w1" by simp
  from assms have "obs (snd (port_participate_in_giveaway P e w2)) = obs w2"
    by (simp add: ports_preserve_def preserves_def)
  with p3 have o3: "obs w3 = obs w2" by simp
  show ?thesis
    using p1 p2 p3 o1 o2 o3
    by (auto simp: run_defs split: prod.splits sum.splits)
qed

lemma for_emails_preserves:
  assumes "ports_preserve obs P"
  shows "obs (world (snd (for_emails P es s))) = obs (world s)"
proof (induction es arbitrary: s)
  case Nil
  show ?case by (simp add: ret_def)
next
  case (Cons e es)
  obtain s1 where s1: "process_email P e s = (Inr (), s1)"
    using process_email_run [of P e s] by simp
  have "for_emails P (e # es) s = for_emails P es s1"
    using s1 by (simp add: bind_def)
  moreover have "obs (world s1) = obs (world s)"
    using process_email_preserves [OF assms, of e s] s1 by simp
  ultimately show ?case using Cons.IH [of s1] by simp
qed

lemma process_emails_preserves:
  assumes "ports_preserve obs P"
  shows "obs (world (snd (process_emails P (start w)))) = obs w"
proof (cases "port_fetch_emails P ''Giveaway'' True 10 w")
  case (Pair r w1)
  from assms have "obs (snd (port_fetch_emails P ''Giveaway'' True 10 w)) = obs w"
    by (simp add: ports_preserve_def preserves_def)
  with Pair have o: "obs w1 = obs w" by simp
  show ?thesis
  proof (cases r)
    case (Inl e)
    with Pair o show ?thesis by (simp add: process_emails_fetch_failed)
  next
    case (Inr es)
    with Pair o show ?thesis
      using for_emails_preserves [OF assms, of es "start w1"]
      by (simp add: process_emails_fetched)
  qed
qed

lemma process_emails_returns: "fst (process_emails P s) = Inr ()"
  by (simp add: process_emails_def try_except_def logger_def emit_def
      split: prod.splits sum.splits)


section \<open>A test double\<close>

text \<open>
  Ports over a world that is the list of message identifiers marked read.  Fetching
  returns the messages of \<open>inbox\<close> not yet marked; the classifier raises on a text that
  starts with \<open>bad\<close>, says no to one that starts with \<open>spam\<close>, and scores one that starts
  with \<open>edge\<close> at exactly 0.85 and every other at 0.9.
\<close>

definition mail :: "string \<Rightarrow> string \<Rightarrow> email" where
  "mail i subject =
     [(''id'', i), (''subject'', subject), (''from'', ''promo@shop.example''), (''body'', ''b'')]"

definition demo_inbox :: "email list" where
  "demo_inbox = [mail ''m1'' ''good'', mail ''m2'' ''edge'', mail ''m3'' ''bad'',
                 mail ''m4'' ''spam'']"

definition demo_ports :: "email list \<Rightarrow> string list ports" where
  "demo_ports inbox =
     \<lparr>port_fetch_emails =
        (\<lambda>label unread_only max_results w.
           (Inr (filter (\<lambda>e. dict_get e ''id'' '''' \<notin> set w) inbox), w)),
      port_mark_as_read = (\<lambda>i w. (Inr True, i # w)),
      port_predict =
        (\<lambda>t w. if take 3 t = ''bad'' then (Inl (Exception ''boom''), w)
                else (Inr (take 4 t \<noteq> ''spam''), w)),
      port_get_confidence_score =
        (\<lambda>t w. (Inr (if take 4 t = ''edge'' then 0.85 else 0.9), w)),
      port_participate_in_giveaway = (\<lambda>e w. (Inr True, w))\<rparr>"

text \<open>The same ports with a Form Actor that notes in the world which message it entered.\<close>

definition acting_ports :: "email list \<Rightarrow> string list ports" where
  "acting_ports inbox =
     (demo_ports inbox)
       \<lparr>port_participate_in_giveaway :=
          (\<lambda>e w. (Inr True, (''entered '' @ dict_get e ''id'' '''') # w))\<rparr>"

lemmas demo_defs = demo_ports_def demo_inbox_def mail_def dict_get_def extract_email_text_def
  newline_def gate_fires_def failure_def world_after_def process_emails_def
  process_emails_body_def run_defs participations_def errors_logged_def predict_calls_def

section \<open>The claims about \<open>process_emails\<close>\<close>

text \<open>
  C1.  In a cycle whose fetch returned the batch \<open>es\<close>, the emails handed to
  \<open>participate_in_giveaway\<close> are, in order and once each, exactly the fetched emails for
  which the gate fires in the world where the loop takes them up, and the world the
  cycle leaves is the one in which \<open>participate_in_giveaway\<close> has run for exactly these
  emails, each after its own classification.  The gate fires exactly when \<open>predict\<close>
  returns true for the email's text and \<open>get_confidence_score\<close> then returns a score
  strictly above 0.85: then the world after the email is the one
  \<open>participate_in_giveaway\<close> leaves, and otherwise it does not depend on that method.
  A score of exactly 0.85 does not fire the gate.
\<close>

theorem gate_rule:
  assumes "port_fetch_emails P ''Giveaway'' True 10 w = (Inr es, w1)"
  shows "participations (trace (snd (process_emails P (start w)))) =
           map fst (filter (\<lambda>(e, w'). gate_fires P e w') (zip es (starts P es w1)))
         \<and> world (snd (process_emails P (start w))) = foldl (\<lambda>w' e. world_after P e w') w1 es
         \<and> (gate_fires P e w' \<longleftrightarrow>
              (\<exists>wa c wb. port_predict P (extract_email_text e) w' = (Inr True, wa)
                 \<and> port_get_confidence_score P (extract_email_text e) wa = (Inr c, wb)
                 \<and> 0.85 < c))
         \<and> (\<forall>wa c wb. port_predict P (extract_email_text e) w' = (Inr True, wa)
                 \<and> port_get_confidence_score P (extract_email_text e) wa = (Inr c, wb)
                 \<and> 0.85 < c \<longrightarrow>
               world_after P e w' = snd (port_participate_in_giveaway P e wb))
         \<and> (\<not> gate_fires P e w' \<longrightarrow>
               world_after (P\<lparr>port_participate_in_giveaway := f\<rparr>) e w' = world_after P e w')
         \<and> (port_get_confidence_score P (extract_email_text e) (snd (port_predict P (extract_email_text e) w'))
               = (Inr 0.85, wc) \<longrightarrow> \<not> gate_fires P e w')"
proof (intro conjI)
  show "participations (trace (snd (process_emails P (start w)))) =
          map fst (filter (\<lambda>(e, w'). gate_fires P e w') (zip es (starts P es w1)))"
    by (simp add: process_emails_fetched [OF assms] for_emails_participations
        participations_simps)
  show "world (snd (process_emails P (start w))) = foldl (\<lambda>w' e. world_after P e w') w1 es"
    by (simp add: process_emails_fetched [OF assms] for_emails_world)
  show "gate_fires P e w' \<longleftrightarrow>
          (\<exists>wa c wb. port_predict P (extract_email_text e) w' = (Inr True, wa)
             \<and> port_get_confidence_score P (extract_email_text e) wa = (Inr c, wb)
             \<and> 0.85 < c)"
  proof (cases "port_predict P (extract_email_text e) w'")
    case (Pair r1 wa)
    obtain r2 wb where c: "port_get_confidence_score P (extract_email_text e) wa = (r2, wb)"
      by (cases "port_get_confidence_score P (extract_email_text e) wa")
    show ?thesis
    proof (cases r1)
      case (Inl x)
      with Pair show ?thesis by (simp add: gate_fires_def)
    next
      case (Inr label)
      show ?thesis
      proof (cases r2)
        case (Inl x)
        with Pair Inr c show ?thesis by (simp add: gate_fires_def)
      next
        case r2: (Inr v)
        with Pair Inr c show ?thesis by (cases label) (simp_all add: gate_fires_def)
      qed
    qed
  qed
  show "\<forall>wa c wb. port_predict P (extract_email_text e) w' = (Inr True, wa)
                 \<and> port_get_confidence_score P (extract_email_text e) wa = (Inr c, wb)
                 \<and> 0.85 < c \<longrightarrow>
               world_after P e w' = snd (port_participate_in_giveaway P e wb)"
    by (simp add: world_after_def)
  show "\<not> gate_fires P e w' \<longrightarrow>
          world_after (P\<lparr>port_participate_in_giveaway := f\<rparr>) e w' = world_after P e w'"
  proof (cases "port_predict P (extract_email_text e) w'")
    case (Pair r1 wa)
    obtain r2 wb where c: "port_get_confidence_score P (extract_email_text e) wa = (r2, wb)"
      by (cases "port_get_confidence_score P (extract_email_text e) wa")
    show ?thesis
    proof (cases r1)
      case (Inl x)
      with Pair show ?thesis by (simp add: world_after_def)
    next
      case (Inr label)
      show ?thesis
      proof (cases r2)
        case (Inl x)
        with Pair Inr c show ?thesis by (simp add: world_after_def)
      next
        case r2: (Inr v)
        with Pair Inr c show ?thesis by (simp add: world_after_def gate_fires_def)
      qed
    qed
  qed
  show "port_get_confidence_score P (extract_email_text e) (snd (port_predict P (extract_email_text e) w'))
               = (Inr 0.85, wc) \<longrightarrow> \<not> gate_fires P e w'"
  proof (cases "port_predict P (extract_email_text e) w'")
    case (Pair r1 wa)
    then show ?thesis by (cases r1) (simp_all add: gate_fires_def)
  qed
qed

theorem gate_rule_witness:
  "port_fetch_emails (acting_ports demo_inbox) ''Giveaway'' True 10 [] = (Inr demo_inbox, [])
   \<and> participations (trace (snd (process_emails (acting_ports demo_inbox) (start []))))
       = [mail ''m1'' ''good'']
   \<and> world (snd (process_emails (acting_ports demo_inbox) (start []))) = [''entered m1'']
   \<and> port_get_confidence_score (acting_ports demo_inbox) (extract_email_text (mail ''m2'' ''edge'')) []
       = (Inr 0.85, [])
   \<and> \<not> gate_fires (acting_ports demo_inbox) (mail ''m2'' ''edge'') []
   \<and> world_after (acting_ports demo_inbox) (mail ''m2'' ''edge'') [] = []
   \<and> world_after (acting_ports demo_inbox) (mail ''m1'' ''good'') [] = [''entered m1'']"
proof -
  let ?P = "acting_ports demo_inbox"
  let ?edge = "mail ''m2'' ''edge''"
  let ?good = "mail ''m1'' ''good''"
  have h: "port_fetch_emails ?P ''Giveaway'' True 10 [] = (Inr demo_inbox, [])"
    by (simp add: acting_ports_def demo_ports_def demo_inbox_def mail_def dict_get_def)
  have c: "port_get_confidence_score ?P (extract_email_text ?edge)
             (snd (port_predict ?P (extract_email_text ?edge) [])) = (Inr 0.85, [])"
    by (simp add: acting_ports_def demo_defs)
  have c': "port_get_confidence_score ?P (extract_email_text ?edge) [] = (Inr 0.85, [])"
    by (simp add: acting_ports_def demo_defs)
  note g = gate_rule [OF h, where e = "?edge" and w' = "[]" and wc = "[]"
      and f = "\<lambda>e. ret True"]
  have "participations (trace (snd (process_emails ?P (start [])))) =
          map fst (filter (\<lambda>(e, w'). gate_fires ?P e w')
            (zip demo_inbox (starts ?P demo_inbox [])))"
    using g by blast
  also have "\<dots> = [?good]"
    by (simp add: acting_ports_def demo_defs)
  finally have a: "participations (trace (snd (process_emails ?P (start [])))) = [?good]" .
  have "world (snd (process_emails ?P (start []))) =
          foldl (\<lambda>w' e. world_after ?P e w') [] demo_inbox"
    using g by blast
  also have "\<dots> = [''entered m1'']"
    by (simp add: acting_ports_def demo_defs)
  finally have b: "world (snd (process_emails ?P (start []))) = [''entered m1'']" .
  have n: "\<not> gate_fires ?P ?edge []"
    using g c by blast
  with g have "world_after (?P\<lparr>port_participate_in_giveaway := \<lambda>e. ret True\<rparr>) ?edge []
                 = world_after ?P ?edge []"
    by blast
  moreover have "world_after (?P\<lparr>port_participate_in_giveaway := \<lambda>e. ret True\<rparr>) ?edge [] = []"
    by (simp add: acting_ports_def demo_defs)
  ultimately have e: "world_after ?P ?edge [] = []" by simp
  have p1: "port_predict ?P (extract_email_text ?good) [] = (Inr True, [])"
    and p2: "port_get_confidence_score ?P (extract_email_text ?good) [] = (Inr 0.9, [])"
    by (simp_all add: acting_ports_def demo_defs)
  have q: "(0.85::real) < 0.9" by simp
  from gate_rule [OF h, where e = "?good" and w' = "[]"]
  have "\<forall>wa c wb. port_predict ?P (extract_email_text ?good) [] = (Inr True, wa)
                 \<and> port_get_confidence_score ?P (extract_email_text ?good) wa = (Inr c, wb)
                 \<and> 0.85 < c \<longrightarrow>
               world_after ?P ?good [] = snd (port_participate_in_giveaway ?P ?good wb)"
    by blast
  with p1 p2 q have "world_after ?P ?good [] = snd (port_participate_in_giveaway ?P ?good [])"
    by blast
  then have d: "world_after ?P ?good [] = [''entered m1'']"
    by (simp add: acting_ports_def demo_defs)
  from h a b c' n e d show ?thesis by blast
qed

text \<open>
  C2, as stated, does not hold: the entry logged for a failing message carries the text
  of the exception and nothing of the message.  A batch whose one message makes the
  classifier raise leaves the single error entry \<open>Error processing email: boom\<close>, and the
  whole trace is the same whichever identifier the message has.
\<close>

theorem error_entry_without_identifier:
  "errors_logged (trace (snd (process_emails (demo_ports [mail ''m3'' ''bad'']) (start []))))
     = [Error_processing_email ''boom'']
   \<and> trace (snd (process_emails (demo_ports [mail ''m3'' ''bad'']) (start [])))
     = trace (snd (process_emails (demo_ports [mail ''m7'' ''bad'']) (start [])))
   \<and> dict_get (mail ''m3'' ''bad'') ''id'' '''' \<noteq> dict_get (mail ''m7'' ''bad'') ''id'' ''''"
  by (simp add: demo_defs)

text \<open>
  C2, amended.  In a cycle whose fetch returned the batch \<open>es\<close>: the cycle returns
  normally; \<open>predict\<close> is called for every message of the batch, in order, whatever the
  messages before it raised; each message for which \<open>predict\<close>, \<open>get_confidence_score\<close>
  or (the gate having fired) \<open>participate_in_giveaway\<close> raises leaves exactly one ERROR
  entry, with the text of that exception, and no other message leaves one; and the
  cycle ends by logging its completion.
\<close>

theorem per_message_isolation:
  assumes "port_fetch_emails P ''Giveaway'' True 10 w = (Inr es, w1)"
  shows "fst (process_emails P (start w)) = Inr ()
         \<and> predict_calls (trace (snd (process_emails P (start w)))) = map extract_email_text es
         \<and> errors_logged (trace (snd (process_emails P (start w)))) =
             concat (map (\<lambda>(e, w'). case failure P e w' of
                                       Some x \<Rightarrow> [Error_processing_email (exn_str x)]
                                     | None \<Rightarrow> [])
                         (zip es (starts P es w1)))
         \<and> last (trace (snd (process_emails P (start w)))) = Log INFO Cycle_completed
         \<and> (port_predict P (extract_email_text e) w' = (Inl x, wa) \<longrightarrow> failure P e w' = Some x)
         \<and> (port_predict P (extract_email_text e) w' = (Inr label, wa)
              \<and> port_get_confidence_score P (extract_email_text e) wa = (Inl x, wb) \<longrightarrow>
              failure P e w' = Some x)
         \<and> (port_predict P (extract_email_text e) w' = (Inr True, wa)
              \<and> port_get_confidence_score P (extract_email_text e) wa = (Inr c, wb)
              \<and> 0.85 < c \<and> port_participate_in_giveaway P e wb = (Inl x, wc) \<longrightarrow>
              failure P e w' = Some x)
         \<and> (failure P e w' = Some x \<longrightarrow>
              (\<exists>wa. port_predict P (extract_email_text e) w' = (Inl x, wa))
              \<or> (\<exists>label wa wb. port_predict P (extract_email_text e) w' = (Inr label, wa)
                    \<and> port_get_confidence_score P (extract_email_text e) wa = (Inl x, wb))
              \<or> (\<exists>wa c wb wc. port_predict P (extract_email_text e) w' = (Inr True, wa)
                    \<and> port_get_confidence_score P (extract_email_text e) wa = (Inr c, wb)
                    \<and> 0.85 < c \<and> port_participate_in_giveaway P e wb = (Inl x, wc)))"
proof (intro conjI)
  show "fst (process_emails P (start w)) = Inr ()"
    by (simp add: process_emails_fetched [OF assms])
  show "predict_calls (trace (snd (process_emails P (start w)))) = map extract_email_text es"
    by (simp add: process_emails_fetched [OF assms] for_emails_predict_calls
        predict_calls_simps)
  show "errors_logged (trace (snd (process_emails P (start w)))) =
          concat (map (\<lambda>(e, w'). case failure P e w' of
                                    Some x \<Rightarrow> [Error_processing_email (exn_str x)]
                                  | None \<Rightarrow> [])
                      (zip es (starts P es w1)))"
    by (simp add: process_emails_fetched [OF assms] for_emails_errors errors_logged_simps)
  show "last (trace (snd (process_emails P (start w)))) = Log INFO Cycle_completed"
    by (simp add: process_emails_fetched [OF assms])
  show "port_predict P (extract_email_text e) w' = (Inl x, wa) \<longrightarrow> failure P e w' = Some x"
    by (simp add: failure_def)
  show "port_predict P (extract_email_text e) w' = (Inr label, wa)
          \<and> port_get_confidence_score P (extract_email_text e) wa = (Inl x, wb) \<longrightarrow>
        failure P e w' = Some x"
    by (simp add: failure_def)
  show "port_predict P (extract_email_text e) w' = (Inr True, wa)
          \<and> port_get_confidence_score P (extract_email_text e) wa = (Inr c, wb)
          \<and> 0.85 < c \<and> port_participate_in_giveaway P e wb = (Inl x, wc) \<longrightarrow>
        failure P e w' = Some x"
    by (simp add: failure_def)
  show "failure P e w' = Some x \<longrightarrow>
          (\<exists>wa. port_predict P (extract_email_text e) w' = (Inl x, wa))
          \<or> (\<exists>label wa wb. port_predict P (extract_email_text e) w' = (Inr label, wa)
                \<and> port_get_confidence_score P (extract_email_text e) wa = (Inl x, wb))
          \<or> (\<exists>wa c wb wc. port_predict P (extract_email_text e) w' = (Inr True, wa)
                \<and> port_get_confidence_score P (extract_email_text e) wa = (Inr c, wb)
                \<and> 0.85 < c \<and> port_participate_in_giveaway P e wb = (Inl x, wc))"
  proof
    assume a: "failure P e w' = Some x"
    obtain r1 wa where p1: "port_predict P (extract_email_text e) w' = (r1, wa)"
      by (cases "port_predict P (extract_email_text e) w'")
    obtain r2 wb where p2: "port_get_confidence_score P (extract_email_text e) wa = (r2, wb)"
      by (cases "port_get_confidence_score P (extract_email_text e) wa")
    obtain r3 wc where p3: "port_participate_in_giveaway P e wb = (r3, wc)"
      by (cases "port_participate_in_giveaway P e wb")
    show "(\<exists>wa. port_predict P (extract_email_text e) w' = (Inl x, wa))
          \<or> (\<exists>label wa wb. port_predict P (extract_email_text e) w' = (Inr label, wa)
                \<and> port_get_confidence_score P (extract_email_text e) wa = (Inl x, wb))
          \<or> (\<exists>wa c wb wc. port_predict P (extract_email_text e) w' = (Inr True, wa)
                \<and> port_get_confidence_score P (extract_email_text e) wa = (Inr c, wb)
                \<and> 0.85 < c \<and> port_participate_in_giveaway P e wb = (Inl x, wc))"
    proof (cases r1)
      case (Inl y)
      with a p1 show ?thesis by (simp add: failure_def)
    next
      case l: (Inr label)
      show ?thesis
      proof (cases r2)
        case (Inl y)
        with a p1 p2 l show ?thesis by (simp add: failure_def)
      next
        case s: (Inr v)
        show ?thesis
        proof (cases r3)
          case (Inl y)
          with a p1 p2 p3 l s have "label \<and> 0.85 < v \<and> y = x"
            by (simp add: failure_def split: if_splits)
          with p1 p2 p3 l s Inl show ?thesis by auto
        next
          case (Inr b)
          with a p1 p2 p3 l s show ?thesis by (simp add: failure_def split: if_splits)
        qed
      qed
    qed
  qed
qed

theorem per_message_isolation_witness:
  "port_fetch_emails (demo_ports demo_inbox) ''Giveaway'' True 10 [] = (Inr demo_inbox, [])
   \<and> port_predict (demo_ports demo_inbox) (extract_email_text (mail ''m3'' ''bad'')) []
       = (Inl (Exception ''boom''), [])
   \<and> failure (demo_ports demo_inbox) (mail ''m3'' ''bad'') [] = Some (Exception ''boom'')
   \<and> fst (process_emails (demo_ports demo_inbox) (start [])) = Inr ()
   \<and> predict_calls (trace (snd (process_emails (demo_ports demo_inbox) (start []))))
       = map extract_email_text demo_inbox
   \<and> errors_logged (trace (snd (process_emails (demo_ports demo_inbox) (start []))))
       = [Error_processing_email ''boom'']
   \<and> last (trace (snd (process_emails (demo_ports demo_inbox) (start []))))
       = Log INFO Cycle_completed"
proof -
  have h: "port_fetch_emails (demo_ports demo_inbox) ''Giveaway'' True 10 [] = (Inr demo_inbox, [])"
    by (simp add: demo_ports_def demo_inbox_def mail_def dict_get_def)
  have r: "port_predict (demo_ports demo_inbox) (extract_email_text (mail ''m3'' ''bad'')) []
             = (Inl (Exception ''boom''), [])"
    by (simp add: demo_defs)
  note t = per_message_isolation [OF h, where e = "mail ''m3'' ''bad''" and w' = "[]"
      and x = "Exception ''boom''" and wa = "[]"]
  from t r have f: "failure (demo_ports demo_inbox) (mail ''m3'' ''bad'') [] = Some (Exception ''boom'')"
    by blast
  have "errors_logged (trace (snd (process_emails (demo_ports demo_inbox) (start [])))) =
          concat (map (\<lambda>(e, w'). case failure (demo_ports demo_inbox) e w' of
                                    Some x \<Rightarrow> [Error_processing_email (exn_str x)]
                                  | None \<Rightarrow> [])
                      (zip demo_inbox (starts (demo_ports demo_inbox) demo_inbox [])))"
    using t by blast
  also have "\<dots> = [Error_processing_email ''boom'']"
    by (simp add: demo_defs)
  finally have e: "errors_logged (trace (snd (process_emails (demo_ports demo_inbox) (start []))))
       = [Error_processing_email ''boom'']" .
  from h r f t e show ?thesis by blast
qed

text \<open>
  C3.  \<open>process_emails\<close> returns normally from every state, whatever its ports do.  When
  the fetch raises, the cycle consists of the opening entry, the call to \<open>fetch_emails\<close>
  and one ERROR entry with the text of the exception, logged by the outer handler: no
  email is handed to \<open>participate_in_giveaway\<close>.
\<close>

theorem no_exception_escapes:
  "fst (process_emails P s) = Inr ()
   \<and> (port_fetch_emails P ''Giveaway'' True 10 w = (Inl e, w1) \<longrightarrow>
        trace (snd (process_emails P (start w))) =
          [Log INFO Starting_cycle, Call_fetch_emails ''Giveaway'' True 10,
           Log ERROR (Critical_error (exn_str e))]
        \<and> participations (trace (snd (process_emails P (start w)))) = [])"
  by (simp add: process_emails_returns process_emails_fetch_failed participations_simps)

theorem no_exception_escapes_witness:
  "port_fetch_emails ((demo_ports demo_inbox)
       \<lparr>port_fetch_emails := \<lambda>label unread_only max_results. raise (Exception ''timed out'')\<rparr>)
     ''Giveaway'' True 10 [] = (Inl (Exception ''timed out''), [])
   \<and> process_emails ((demo_ports demo_inbox)
       \<lparr>port_fetch_emails := \<lambda>label unread_only max_results. raise (Exception ''timed out'')\<rparr>)
       (start []) =
     (Inr (), \<lparr>trace = [Log INFO Starting_cycle, Call_fetch_emails ''Giveaway'' True 10,
                        Log ERROR (Critical_error ''timed out'')],
               world = []\<rparr>)"
proof -
  let ?P = "(demo_ports demo_inbox)
       \<lparr>port_fetch_emails := \<lambda>label unread_only max_results. raise (Exception ''timed out'')\<rparr>"
  have h: "port_fetch_emails ?P ''Giveaway'' True 10 [] = (Inl (Exception ''timed out''), [])"
    by (simp add: raise_def)
  from no_exception_escapes [of ?P "start []" "[]" "Exception ''timed out''" "[]"] h
  have "fst (process_emails ?P (start [])) = Inr ()"
    and "trace (snd (process_emails ?P (start []))) =
          [Log INFO Starting_cycle, Call_fetch_emails ''Giveaway'' True 10,
           Log ERROR (Critical_error ''timed out'')]"
    by simp_all
  moreover have "world (snd (process_emails ?P (start []))) = []"
    by (simp add: process_emails_fetch_failed [OF h])
  ultimately have "process_emails ?P (start []) =
     (Inr (), \<lparr>trace = [Log INFO Starting_cycle, Call_fetch_emails ''Giveaway'' True 10,
                        Log ERROR (Critical_error ''timed out'')],
               world = []\<rparr>)"
    by (cases "process_emails ?P (start [])") auto
  with h show ?thesis by blast
qed

section \<open>Stand-ins for the libraries\<close>

text \<open>
  Libraries that leave the world alone: a Keras whose loading fails, whose padding
  returns the sequences as they are and whose \<open>str.lower\<close> is the one of the ASCII
  letters, a model that scores every input \<open>v\<close>, a tokenizer, and a Gmail service whose
  every request raises a given exception.
\<close>

definition ascii_lower_char :: "char \<Rightarrow> char" where
  "ascii_lower_char c =
     (if (65::nat) \<le> of_char c \<and> of_char c \<le> (90::nat) then char_of (of_char c + (32::nat))
      else c)"

definition ascii_lower :: "string \<Rightarrow> string" where
  "ascii_lower t = map ascii_lower_char t"

definition quiet :: "unit sys" where
  "quiet = \<lparr>outside = (), console = []\<rparr>"

definition demo_keras :: "'x keras" where
  "demo_keras =
     \<lparr>load_model = (\<lambda>path. raise (Exception ''No such file'')),
      pickle_load = (\<lambda>path. raise (Exception ''No such file'')),
      pad_sequences = (\<lambda>sequences maxlen. ret sequences),
      str_lower = ascii_lower\<rparr>"

definition demo_model :: "real \<Rightarrow> 'x keras_model" where
  "demo_model v = (\<lambda>x. ret [[v]])"

definition demo_tokenizer :: "'x keras_tokenizer" where
  "demo_tokenizer = (\<lambda>texts. ret [[4, 2]])"

definition demo_predictor :: "real \<Rightarrow> 'x ModelPredictor" where
  "demo_predictor v =
     \<lparr>model = Some (demo_model v), tokenizer = Some demo_tokenizer, max_length = Some 100\<rparr>"

definition failing_gmail :: "exn \<Rightarrow> unit gmail" where
  "failing_gmail e =
     \<lparr>messages_list = (\<lambda>q max_results. raise e),
      messages_get = (\<lambda>msg_id. raise e),
      messages_modify = (\<lambda>msg_id labels. raise e)\<rparr>"

definition demo_handler :: "exn \<Rightarrow> unit EmailHandler" where
  "demo_handler e = \<lparr>service = failing_gmail e, decode = Inr\<rparr>"

text \<open>
  A Gmail service that lists three messages and fails to retrieve the second, and a
  stateful one whose world is the list of unread identifiers: it lists them, retrieves
  any message, and \<open>modify\<close> takes an identifier off the list.  Both come with a decoder
  that returns its input.  A browser that loads every page and finds no element.
\<close>

definition demo_message :: message where
  "demo_message =
     \<lparr>headers = [(''From'', ''promo@shop.example''), (''Subject'', ''Win a bike'')],
      parts = None,
      body_data = Some ''Enter at http://shop.example/win today''\<rparr>"

definition demo_email :: "string \<Rightarrow> email" where
  "demo_email i =
     [(''id'', i), (''subject'', ''Win a bike''), (''from'', ''promo@shop.example''),
      (''body'', ''Enter at http://shop.example/win today'')]"

definition patchy_gmail :: "unit gmail" where
  "patchy_gmail =
     \<lparr>messages_list =
        (\<lambda>q max_results. ret (Some [[(''id'', ''m1'')], [(''id'', ''m2'')], [(''id'', ''m3'')]])),
      messages_get =
        (\<lambda>msg_id. if msg_id = ''m2'' then raise (HttpError ''404 Not Found'')
                   else ret demo_message),
      messages_modify = (\<lambda>msg_id labels. ret ())\<rparr>"

definition patchy_handler :: "unit EmailHandler" where
  "patchy_handler = \<lparr>service = patchy_gmail, decode = Inr\<rparr>"

definition inbox_gmail :: "string list gmail" where
  "inbox_gmail =
     \<lparr>messages_list =
        (\<lambda>q max_results unread. (Inr (Some (map (\<lambda>i. [(''id'', i)]) unread)), unread)),
      messages_get = (\<lambda>msg_id. ret demo_message),
      messages_modify = (\<lambda>msg_id labels unread. (Inr (), removeAll msg_id unread))\<rparr>"

definition inbox_handler :: "string list EmailHandler" where
  "inbox_handler = \<lparr>service = inbox_gmail, decode = Inr\<rparr>"

definition demo_driver :: "'x WebDriver" where
  "demo_driver = \<lparr>get = (\<lambda>url. ret ()), find_elements = (\<lambda>selector. ret [])\<rparr>"

definition demo_engine :: "'x AutomationEngine" where
  "demo_engine = \<lparr>driver = Some demo_driver, headless = False\<rparr>"

section \<open>The claims about the three classes\<close>

lemmas prog_defs = bind_def ret_def raise_def try_except_def extern_def print_def
  engine_logger_def lift_def

text \<open>
  C10.  With model and tokenizer loaded, when tokenizing, padding and the model's
  \<open>predict\<close> return and the model's output has an entry \<open>[0][0]\<close>, \<open>predict\<close> returns
  whether that entry is strictly above 0.5; the console is not written to.
\<close>

theorem predict_threshold:
  assumes "model M = Some mdl" and "tokenizer M = Some tok" and "max_length M = Some n"
    and "tok [str_lower K text] (outside s) = (Inr sequences, x1)"
    and "pad_sequences K sequences n x1 = (Inr padded, x2)"
    and "mdl padded x2 = (Inr ((v # row) # rows), x3)"
  shows "predict K M text s = (Inr (0.5 < v), s\<lparr>outside := x3\<rparr>)"
  using assms
  by (simp add: predict_def preprocess_text_def item00_def prog_defs Let_def)

theorem predict_threshold_witness:
  "model (demo_predictor 0.5) = Some (demo_model 0.5)
   \<and> tokenizer (demo_predictor 0.5) = Some demo_tokenizer
   \<and> max_length (demo_predictor 0.5) = Some 100
   \<and> demo_tokenizer [str_lower demo_keras ''You WON''] (outside quiet) = (Inr [[4, 2]], ())
   \<and> pad_sequences demo_keras [[4, 2]] 100 () = (Inr [[4, 2]], ())
   \<and> demo_model 0.5 [[4, 2]] () = (Inr [[0.5]], ())
   \<and> predict demo_keras (demo_predictor 0.5) ''You WON'' quiet = (Inr False, quiet)"
proof -
  have 1: "model (demo_predictor 0.5) = Some (demo_model 0.5)"
    and 2: "tokenizer (demo_predictor 0.5) = Some demo_tokenizer"
    and 3: "max_length (demo_predictor 0.5) = Some 100"
    by (simp_all add: demo_predictor_def)
  have 4: "demo_tokenizer [str_lower demo_keras ''You WON''] (outside quiet) = (Inr [[4, 2]], ())"
    by (simp add: demo_tokenizer_def ret_def)
  have 5: "pad_sequences demo_keras [[4, 2]] 100 () = (Inr [[4, 2]], ())"
    by (simp add: demo_keras_def ret_def)
  have 6: "demo_model 0.5 [[4, 2]] () = (Inr ((0.5 # []) # []), ())"
    by (simp add: demo_model_def ret_def)
  have "predict demo_keras (demo_predictor 0.5) ''You WON'' quiet
          = (Inr (0.5 < (0.5::real)), quiet\<lparr>outside := ()\<rparr>)"
    by (rule predict_threshold [OF 1 2 3 4 5 6])
  then have 7: "predict demo_keras (demo_predictor 0.5) ''You WON'' quiet = (Inr False, quiet)"
    by (simp add: quiet_def)
  from 1 2 3 4 5 6 7 show ?thesis by simp
qed

text \<open>
  C4.  A predictor without a model or without a tokenizer answers every text with
  false from \<open>predict\<close> and 0.0 from \<open>get_confidence_score\<close>; an engine without a driver
  answers every email with false from \<open>participate_in_giveaway\<close>; none of them raises.
  These are the states the constructors leave behind: when loading the model or the
  tokenizer raises, \<open>ModelPredictor.__init__\<close> sets both to \<open>None\<close>, and when starting
  Chrome raises, \<open>AutomationEngine.__init__\<close> leaves the driver \<open>None\<close>.
\<close>

theorem inert_when_unavailable:
  "(model M = None \<or> tokenizer M = None \<longrightarrow>
      fst (predict K M email_text s) = Inr False \<and> get_confidence_score K M email_text s = (Inr 0, s))
   \<and> (driver E = None \<longrightarrow> fst (participate_in_giveaway E email s) = Inr False)
   \<and> (fst (load_model K model_path (outside s)) = Inl e
        \<or> (\<exists>m x. load_model K model_path (outside s) = (Inr m, x)
              \<and> fst (pickle_load K tokenizer_path x) = Inl e) \<longrightarrow>
        (\<exists>M' s'. ModelPredictor_init K model_path tokenizer_path s = (Inr M', s')
           \<and> model M' = None \<and> tokenizer M' = None))
   \<and> (fst (chrome ((if hl then [''--headless''] else [])
                     @ [''--no-sandbox'', ''--disable-dev-shm-usage'']) (outside s)) = Inl e \<longrightarrow>
        (\<exists>E' s'. AutomationEngine_init chrome hl s = (Inr E', s') \<and> driver E' = None))"
proof (intro conjI impI)
  assume "model M = None \<or> tokenizer M = None"
  then show "fst (predict K M email_text s) = Inr False"
    by (auto simp: predict_def prog_defs split: option.splits)
next
  assume "model M = None \<or> tokenizer M = None"
  then show "get_confidence_score K M email_text s = (Inr 0, s)"
    by (auto simp: get_confidence_score_def prog_defs split: option.splits)
next
  assume "driver E = None"
  then show "fst (participate_in_giveaway E email s) = Inr False"
    by (simp add: participate_in_giveaway_def prog_defs)
next
  assume "fst (load_model K model_path (outside s)) = Inl e
        \<or> (\<exists>m x. load_model K model_path (outside s) = (Inr m, x)
              \<and> fst (pickle_load K tokenizer_path x) = Inl e)"
  then show "\<exists>M' s'. ModelPredictor_init K model_path tokenizer_path s = (Inr M', s')
           \<and> model M' = None \<and> tokenizer M' = None"
    by (auto simp: ModelPredictor_init_def prog_defs split: prod.splits sum.splits)
next
  assume "fst (chrome ((if hl then [''--headless''] else [])
                     @ [''--no-sandbox'', ''--disable-dev-shm-usage'']) (outside s)) = Inl e"
  then show "\<exists>E' s'. AutomationEngine_init chrome hl s = (Inr E', s') \<and> driver E' = None"
    by (cases hl)
      (auto simp: AutomationEngine_init_def init_driver_def prog_defs Let_def
        split: prod.splits sum.splits)
qed

theorem inert_when_unavailable_witness:
  "fst (load_model demo_keras ''models/lstm_model.h5'' (outside quiet)) = Inl (Exception ''No such file'')
   \<and> fst (ModelPredictor_init demo_keras ''models/lstm_model.h5'' ''models/tokenizer.pickle'' quiet)
       = Inr \<lparr>model = None, tokenizer = None, max_length = None\<rparr>
   \<and> fst (predict demo_keras \<lparr>model = None, tokenizer = None, max_length = None\<rparr> ''You WON'' quiet)
       = Inr False
   \<and> get_confidence_score demo_keras \<lparr>model = None, tokenizer = None, max_length = None\<rparr>
        ''You WON'' quiet = (Inr 0, quiet)
   \<and> fst (raise (Exception ''chromedriver not found'') (outside quiet)
           :: (exn + unit WebDriver) \<times> unit) = Inl (Exception ''chromedriver not found'')
   \<and> fst (AutomationEngine_init (\<lambda>options. raise (Exception ''chromedriver not found'')) False quiet)
       = Inr \<lparr>driver = None, headless = False\<rparr>
   \<and> fst (participate_in_giveaway \<lparr>driver = None, headless = False\<rparr> (mail ''m1'' ''good'') quiet)
       = Inr False"
proof -
  let ?M = "\<lparr>model = None, tokenizer = None, max_length = None\<rparr> :: unit ModelPredictor"
  let ?E = "\<lparr>driver = None, headless = False\<rparr> :: unit AutomationEngine"
  let ?chrome = "(\<lambda>options. raise (Exception ''chromedriver not found''))
                   :: string list \<Rightarrow> (unit WebDriver, unit) prog"
  note t = inert_when_unavailable [where M = "?M" and K = demo_keras and email_text = "''You WON''"
      and s = quiet and E = "?E" and email = "mail ''m1'' ''good''"
      and model_path = "''models/lstm_model.h5''" and tokenizer_path = "''models/tokenizer.pickle''"
      and e = "Exception ''No such file''" and chrome = "?chrome" and hl = False]
  have l: "fst (load_model demo_keras ''models/lstm_model.h5'' (outside quiet))
             = Inl (Exception ''No such file'')"
    by (simp add: demo_keras_def raise_def)
  have c: "fst (?chrome [''--no-sandbox'', ''--disable-dev-shm-usage''] (outside quiet))
             = Inl (Exception ''chromedriver not found'')"
    by (simp add: raise_def)
  have p: "fst (predict demo_keras ?M ''You WON'' quiet) = Inr False"
    and g: "get_confidence_score demo_keras ?M ''You WON'' quiet = (Inr 0, quiet)"
    and a: "fst (participate_in_giveaway ?E (mail ''m1'' ''good'') quiet) = Inr False"
    using t by simp_all
  have i: "fst (ModelPredictor_init demo_keras ''models/lstm_model.h5'' ''models/tokenizer.pickle'' quiet)
       = Inr ?M"
    by (simp add: ModelPredictor_init_def demo_keras_def prog_defs)
  have d: "fst (AutomationEngine_init ?chrome False quiet) = Inr ?E"
    by (simp add: AutomationEngine_init_def init_driver_def prog_defs)
  from l c p g a i d show ?thesis by (simp add: raise_def)
qed

text \<open>
  C8.  The docstring of \<open>get_confidence_score\<close> promises a score between 0 and 1, but
  the method returns the model's score as it is: with a loaded model whose output for
  the text is 1.5, the confidence returned is 1.5, which is above 1.0.
\<close>

theorem confidence_above_one:
  "get_confidence_score demo_keras (demo_predictor 1.5) ''You WON'' quiet = (Inr 1.5, quiet)
   \<and> \<not> (1.5 :: real) \<le> 1"
  by (simp add: get_confidence_score_def preprocess_text_def item00_def prog_defs Let_def
      demo_predictor_def demo_model_def demo_tokenizer_def demo_keras_def quiet_def)

text \<open>
  What \<open>get_confidence_score\<close> does guarantee: for every text and every behaviour of
  the model it returns a float and does not raise; the float is 0.0 or the entry
  \<open>[0][0]\<close> of an output of the model, unchanged.  It lies between 0.0 and 1.0 whenever
  that entry of every output of the model does.
\<close>

lemma score_of_model:
  assumes "tokenizer M = Some tok"
    and "bind (preprocess_text K M text) (\<lambda>processed.
           case processed of
             None \<Rightarrow> ret 0
           | Some x \<Rightarrow> bind (extern (mdl x)) (\<lambda>prediction.
                        bind (item00 prediction) (\<lambda>v. ret v))) s = (Inr c, s')"
  shows "\<exists>x u row rows u'. mdl x u = (Inr ((c # row) # rows), u')"
proof -
  from assms obtain x s1 where pre: "preprocess_text K M text s = (Inr (Some x), s1)"
    and rest: "bind (extern (mdl x)) (\<lambda>prediction. bind (item00 prediction) (\<lambda>v. ret v)) s1
                 = (Inr c, s')"
    by (auto simp: bind_def preprocess_text_def Let_def ret_def raise_def
        split: prod.splits sum.splits option.splits)
  obtain r u' where m: "mdl x (outside s1) = (r, u')" by (cases "mdl x (outside s1)")
  from rest m obtain p where r: "r = Inr p"
    and it: "item00 p (s1\<lparr>outside := u'\<rparr>) = (Inr c, s')"
    by (cases r) (auto simp: bind_def extern_def ret_def split: prod.splits sum.splits)
  from it obtain row rows where "p = (c # row) # rows"
    by (auto simp: item00_def ret_def raise_def split: list.splits)
  with m r show ?thesis by blast
qed

theorem confidence_is_raw_score:
  "\<exists>c s'. get_confidence_score K M text s = (Inr c, s')
      \<and> (c = 0 \<or> (\<exists>mdl x u row rows u'. model M = Some mdl
                     \<and> mdl x u = (Inr ((c # row) # rows), u')))
      \<and> ((\<forall>mdl x u v row rows u'. model M = Some mdl
             \<and> mdl x u = (Inr ((v # row) # rows), u') \<longrightarrow> 0 \<le> v \<and> v \<le> 1)
           \<longrightarrow> 0 \<le> c \<and> c \<le> 1)"
proof -
  have main: "\<exists>c s'. get_confidence_score K M text s = (Inr c, s')
      \<and> (c = 0 \<or> (\<exists>mdl x u row rows u'. model M = Some mdl
                     \<and> mdl x u = (Inr ((c # row) # rows), u')))"
  proof (cases "model M")
    case None
    then show ?thesis by (simp add: get_confidence_score_def ret_def)
  next
    case (Some mdl)
    show ?thesis
    proof (cases "tokenizer M")
      case None
      with Some show ?thesis by (simp add: get_confidence_score_def ret_def)
    next
      case tok: (Some tok)
      let ?body = "bind (preprocess_text K M text) (\<lambda>processed.
           case processed of
             None \<Rightarrow> ret 0
           | Some x \<Rightarrow> bind (extern (mdl x)) (\<lambda>prediction.
                        bind (item00 prediction) (\<lambda>v. ret v)))"
      obtain r s1 where b: "?body s = (r, s1)" by (cases "?body s")
      have step: "get_confidence_score K M text s =
                    (case r of
                       Inl e \<Rightarrow> bind (print (''Confidence score error: '' @ exn_str e))
                                  (\<lambda>_. ret 0) s1
                     | Inr c \<Rightarrow> (Inr c, s1))"
        using Some tok b
        by (simp add: get_confidence_score_def try_except_def split: sum.splits)
      show ?thesis
      proof (cases r)
        case (Inl e)
        then show ?thesis by (simp add: step bind_def print_def ret_def)
      next
        case (Inr c)
        with b have "?body s = (Inr c, s1)" by simp
        from score_of_model [OF tok this]
        obtain x u row rows u' where "mdl x u = (Inr ((c # row) # rows), u')" by blast
        with Some Inr show ?thesis by (auto simp: step)
      qed
    qed
  qed
  then obtain c s' where g: "get_confidence_score K M text s = (Inr c, s')"
    and d: "c = 0 \<or> (\<exists>mdl x u row rows u'. model M = Some mdl
                     \<and> mdl x u = (Inr ((c # row) # rows), u'))"
    by blast
  have "(\<forall>mdl x u v row rows u'. model M = Some mdl
             \<and> mdl x u = (Inr ((v # row) # rows), u') \<longrightarrow> 0 \<le> v \<and> v \<le> 1)
           \<longrightarrow> 0 \<le> c \<and> c \<le> 1"
  proof
    assume h: "\<forall>mdl x u v row rows u'. model M = Some mdl
             \<and> mdl x u = (Inr ((v # row) # rows), u') \<longrightarrow> 0 \<le> v \<and> v \<le> 1"
    from d show "0 \<le> c \<and> c \<le> 1"
    proof
      assume "c = 0"
      then show ?thesis by simp
    next
      assume "\<exists>mdl x u row rows u'. model M = Some mdl
                     \<and> mdl x u = (Inr ((c # row) # rows), u')"
      with h show ?thesis by blast
    qed
  qed
  with g d show ?thesis by blast
qed

theorem confidence_is_raw_score_witness:
  "model (demo_predictor 0.9) = Some (demo_model 0.9)
   \<and> demo_model 0.9 [[4, 2]] () = (Inr [[0.9]], ())
   \<and> get_confidence_score demo_keras (demo_predictor 0.9) ''You WON'' quiet = (Inr 0.9, quiet)
   \<and> (0::real) \<le> 0.9 \<and> (0.9::real) \<le> 1"
proof -
  have m: "model (demo_predictor 0.9) = Some (demo_model 0.9)"
    by (simp add: demo_predictor_def)
  have o: "demo_model 0.9 [[4, 2]] () = (Inr [[0.9]], ())"
    by (simp add: demo_model_def ret_def)
  have h: "\<forall>mdl x u v row rows u'. model (demo_predictor 0.9) = Some mdl
       \<and> mdl x u = (Inr ((v # row) # rows), u') \<longrightarrow> 0 \<le> v \<and> v \<le> 1"
    by (auto simp: demo_predictor_def demo_model_def ret_def)
  have v: "get_confidence_score demo_keras (demo_predictor 0.9) ''You WON'' quiet = (Inr 0.9, quiet)"
    by (simp add: get_confidence_score_def preprocess_text_def item00_def prog_defs Let_def
      demo_predictor_def demo_model_def demo_tokenizer_def demo_keras_def quiet_def)
  from confidence_is_raw_score [of demo_keras "demo_predictor 0.9" "''You WON''" quiet] h v
  have "(0::real) \<le> 0.9 \<and> (0.9::real) \<le> 1" by auto
  with m o v show ?thesis by blast
qed

text \<open>
  C6.  \<open>predict\<close> always returns a boolean, so \<open>predict_batch\<close> always returns a list:
  it has the length of the list of texts, and its element at each position is what
  \<open>predict\<close> returns for the text at that position, called in the state the calls for
  the texts before it have left.
\<close>

lemma try_except_returns:
  assumes "\<And>e s1. \<exists>b s'. h e s1 = (Inr b, s')"
  shows "\<exists>b s'. try_except m h s = (Inr b, s')"
proof (cases "m s")
  case (Pair r s1)
  show ?thesis
  proof (cases r)
    case (Inl e)
    with Pair assms [of e s1] show ?thesis by (simp add: try_except_def)
  next
    case (Inr b)
    with Pair show ?thesis by (simp add: try_except_def)
  qed
qed

lemma predict_returns: "\<exists>b s'. predict K M email_text s = (Inr b, s')"
proof (cases "model M")
  case None
  then show ?thesis by (auto simp: predict_def bind_def print_def ret_def)
next
  case (Some mdl)
  show ?thesis
  proof (cases "tokenizer M")
    case None
    with Some show ?thesis by (auto simp: predict_def bind_def print_def ret_def)
  next
    case tok: (Some tok)
    show ?thesis
      unfolding predict_def Some tok option.case
      by (rule try_except_returns) (auto simp: bind_def print_def ret_def)
  qed
qed

theorem predict_batch_elementwise:
  "\<exists>bs s'. predict_batch K M ts s = (Inr bs, s')
      \<and> length bs = length ts
      \<and> (\<forall>i<length ts.
            fst (predict K M (ts ! i) (snd (predict_batch K M (take i ts) s))) = Inr (bs ! i))"
proof (induction ts arbitrary: s)
  case Nil
  show ?case by (simp add: ret_def)
next
  case (Cons t ts)
  obtain b s1 where p: "predict K M t s = (Inr b, s1)"
    using predict_returns [of K M t s] by blast
  from Cons.IH [of s1] obtain bs s2 where r: "predict_batch K M ts s1 = (Inr bs, s2)"
    and l: "length bs = length ts"
    and e: "\<forall>i<length ts.
              fst (predict K M (ts ! i) (snd (predict_batch K M (take i ts) s1))) = Inr (bs ! i)"
    by blast
  have whole: "predict_batch K M (t # ts) s = (Inr (b # bs), s2)"
    using p r by (simp add: bind_def ret_def)
  have "fst (predict K M ((t # ts) ! i) (snd (predict_batch K M (take i (t # ts)) s)))
          = Inr ((b # bs) ! i)" if "i < length (t # ts)" for i
  proof (cases i)
    case 0
    then show ?thesis using p by (simp add: ret_def)
  next
    case (Suc j)
    with that have j: "j < length ts" by simp
    have "snd (predict_batch K M (t # take j ts) s) = snd (predict_batch K M (take j ts) s1)"
      using p by (simp add: bind_def ret_def split: prod.splits sum.splits)
    with e j Suc show ?thesis by simp
  qed
  with whole l show ?case by simp
qed

theorem predict_batch_elementwise_witness:
  "(1::nat) < length [''You WON'', ''hello'']
   \<and> predict_batch demo_keras (demo_predictor 0.9) [''You WON'', ''hello''] quiet
       = (Inr [True, True], quiet)
   \<and> fst (predict demo_keras (demo_predictor 0.9) ([''You WON'', ''hello''] ! 1)
            (snd (predict_batch demo_keras (demo_predictor 0.9) (take 1 [''You WON'', ''hello''])
                    quiet)))
       = Inr ([True, True] ! 1)"
proof -
  let ?ts = "[''You WON'', ''hello'']"
  have v: "predict_batch demo_keras (demo_predictor 0.9) ?ts quiet = (Inr [True, True], quiet)"
    by (simp add: predict_def preprocess_text_def item00_def prog_defs Let_def
      demo_predictor_def demo_model_def demo_tokenizer_def demo_keras_def quiet_def)
  from predict_batch_elementwise [of demo_keras "demo_predictor 0.9" ?ts quiet]
  obtain bs s' where r: "predict_batch demo_keras (demo_predictor 0.9) ?ts quiet = (Inr bs, s')"
    and e: "\<forall>i<length ?ts.
            fst (predict demo_keras (demo_predictor 0.9) (?ts ! i)
                   (snd (predict_batch demo_keras (demo_predictor 0.9) (take i ?ts) quiet)))
              = Inr (bs ! i)"
    by blast
  from r v have "bs = [True, True]" by simp
  moreover have one: "(1::nat) < length ?ts" by simp
  ultimately have "fst (predict demo_keras (demo_predictor 0.9) (?ts ! 1)
            (snd (predict_batch demo_keras (demo_predictor 0.9) (take 1 ?ts) quiet)))
       = Inr ([True, True] ! 1)"
    using e by blast
  with one v show ?thesis by blast
qed

text \<open>
  C5, as stated, does not hold: \<open>fetch_emails\<close> catches \<open>HttpError\<close> and nothing else.
  When the listing request fails for another reason (here the server is not found),
  the exception leaves \<open>fetch_emails\<close>.
\<close>

theorem fetch_emails_raises:
  "fetch_emails (demo_handler (Exception ''ServerNotFoundError'')) ''Giveaway'' True 10 quiet
     = (Inl (Exception ''ServerNotFoundError''), quiet)"
  by (simp add: fetch_emails_def try_except_HttpError_def demo_handler_def failing_gmail_def
      prog_defs quiet_def)

text \<open>
  C5, amended.  For every label, flag and limit: when the listing request raises an
  \<open>HttpError\<close>, \<open>fetch_emails\<close> prints it and returns the empty list; when it raises an
  exception of another class, that exception leaves \<open>fetch_emails\<close>.  When the listing
  returns, \<open>_parse_email\<close> is called for every listed identifier in turn and
  \<open>fetch_emails\<close> returns, in that order, the emails of the calls that returned one.
  \<open>_parse_email\<close> never raises: it returns \<open>None\<close> when retrieving the message or
  decoding its body raises, and otherwise the email built from the message.  So a
  message that cannot be retrieved is left out, and it alone.
\<close>

fun parse_each ::
  "'x EmailHandler \<Rightarrow> string list \<Rightarrow> 'x sys \<Rightarrow> (exn + email option) list \<times> 'x sys" where
  "parse_each H [] s = ([], s)"
| "parse_each H (i # ids) s =
     (case parse_email H i s of
        (r, s1) \<Rightarrow> (case parse_each H ids s1 of (rs, s2) \<Rightarrow> (r # rs, s2)))"

lemma parse_email_returns: "\<exists>r s'. parse_email H msg_id s = (Inr r, s')"
  by (simp add: parse_email_def try_except_def bind_def print_def ret_def
      split: prod.splits sum.splits)

lemma parse_email_built:
  assumes "messages_get (service H) msg_id (outside s) = (Inr m, x)"
    and "get_email_body (decode H) m (s\<lparr>outside := x\<rparr>) = (Inr body, s2)"
  shows "parse_email H msg_id s =
           (Inr (Some [(''id'', msg_id),
                       (''subject'', header_value (headers m) ''Subject'' ''No Subject''),
                       (''from'', header_value (headers m) ''From'' ''Unknown''),
                       (''body'', body)]), s2)"
  using assms by (simp add: parse_email_def prog_defs Let_def)

lemma parse_email_nonempty:
  assumes "parse_email H msg_id s = (Inr (Some d), s')"
  shows "d \<noteq> []"
proof (cases "messages_get (service H) msg_id (outside s)")
  case (Pair r x)
  show ?thesis
  proof (cases r)
    case (Inl e)
    with Pair assms show ?thesis by (simp add: parse_email_def prog_defs)
  next
    case (Inr m)
    obtain rb s2 where b: "get_email_body (decode H) m (s\<lparr>outside := x\<rparr>) = (rb, s2)"
      by (cases "get_email_body (decode H) m (s\<lparr>outside := x\<rparr>)")
    show ?thesis
    proof (cases rb)
      case (Inl e)
      with Pair Inr b assms show ?thesis by (simp add: parse_email_def prog_defs Let_def)
    next
      case body: (Inr body)
      with Pair Inr b have "parse_email H msg_id s =
           (Inr (Some [(''id'', msg_id),
                       (''subject'', header_value (headers m) ''Subject'' ''No Subject''),
                       (''from'', header_value (headers m) ''From'' ''Unknown''),
                       (''body'', body)]), s2)"
        by (simp add: parse_email_built)
      with assms show ?thesis by auto
    qed
  qed
qed

lemma parse_all_each:
  assumes "map (\<lambda>msg. map_of msg ''id'') msgs = map Some ids"
  shows "parse_all H msgs emails s =
           (Inr (emails @ [d. Inr (Some d) \<leftarrow> fst (parse_each H ids s)]),
            snd (parse_each H ids s))"
  using assms
proof (induction msgs arbitrary: ids emails s)
  case Nil
  then show ?case by (simp add: ret_def)
next
  case (Cons msg msgs)
  from Cons.prems obtain i ids' where ids: "ids = i # ids'"
    and i: "map_of msg ''id'' = Some i"
    and rest: "map (\<lambda>msg. map_of msg ''id'') msgs = map Some ids'"
    by (cases ids) auto
  obtain r s1 where p: "parse_email H i s = (Inr r, s1)"
    using parse_email_returns [of H i s] by blast
  obtain rs s2 where e: "parse_each H ids' s1 = (rs, s2)"
    by (cases "parse_each H ids' s1")
  show ?case
  proof (cases r)
    case None
    have "parse_all H (msg # msgs) emails s = parse_all H msgs emails s1"
      using i p None by (simp add: subscript_def bind_def ret_def)
    with Cons.IH [OF rest, of emails s1] ids p e None show ?thesis by simp
  next
    case (Some d)
    with p have "d \<noteq> []" by (auto dest: parse_email_nonempty)
    then have "parse_all H (msg # msgs) emails s = parse_all H msgs (emails @ [d]) s1"
      using i p Some by (simp add: subscript_def bind_def ret_def)
    with Cons.IH [OF rest, of "emails @ [d]" s1] ids p e Some show ?thesis by simp
  qed
qed

theorem fetch_emails_failure_modes:
  "(messages_list (service H)
       (if unread_only then (''label:'' @ label) @ '' is:unread'' else ''label:'' @ label)
       max_results (outside s) = (Inl (HttpError t), x) \<longrightarrow>
      fetch_emails H label unread_only max_results s =
        (Inr [], \<lparr>outside = x, console = console s @ [Print (''An error occurred: '' @ t)]\<rparr>))
   \<and> (messages_list (service H)
       (if unread_only then (''label:'' @ label) @ '' is:unread'' else ''label:'' @ label)
       max_results (outside s) = (Inl (Exception t), x) \<longrightarrow>
      fetch_emails H label unread_only max_results s =
        (Inl (Exception t), \<lparr>outside = x, console = console s\<rparr>))
   \<and> (messages_list (service H)
       (if unread_only then (''label:'' @ label) @ '' is:unread'' else ''label:'' @ label)
       max_results (outside s) = (Inr results, x)
       \<and> map (\<lambda>msg. map_of msg ''id'') (case results of None \<Rightarrow> [] | Some ms \<Rightarrow> ms)
           = map Some ids \<longrightarrow>
      fetch_emails H label unread_only max_results s =
        (Inr [d. Inr (Some d) \<leftarrow> fst (parse_each H ids (s\<lparr>outside := x\<rparr>))],
         snd (parse_each H ids (s\<lparr>outside := x\<rparr>))))
   \<and> (\<exists>r s'. parse_email H msg_id s = (Inr r, s'))
   \<and> (fst (messages_get (service H) msg_id (outside s)) = Inl e \<longrightarrow>
        fst (parse_email H msg_id s) = Inr None)
   \<and> (messages_get (service H) msg_id (outside s) = (Inr m, x)
        \<and> fst (get_email_body (decode H) m (s\<lparr>outside := x\<rparr>)) = Inl e \<longrightarrow>
        fst (parse_email H msg_id s) = Inr None)
   \<and> (messages_get (service H) msg_id (outside s) = (Inr m, x)
        \<and> get_email_body (decode H) m (s\<lparr>outside := x\<rparr>) = (Inr body, s2) \<longrightarrow>
        parse_email H msg_id s =
           (Inr (Some [(''id'', msg_id),
                       (''subject'', header_value (headers m) ''Subject'' ''No Subject''),
                       (''from'', header_value (headers m) ''From'' ''Unknown''),
                       (''body'', body)]), s2))"
proof (intro conjI impI)
  assume "messages_list (service H)
       (if unread_only then (''label:'' @ label) @ '' is:unread'' else ''label:'' @ label)
       max_results (outside s) = (Inl (HttpError t), x)"
  then show "fetch_emails H label unread_only max_results s =
        (Inr [], \<lparr>outside = x, console = console s @ [Print (''An error occurred: '' @ t)]\<rparr>)"
    by (cases unread_only)
      (simp_all add: fetch_emails_def try_except_HttpError_def prog_defs Let_def)
next
  assume "messages_list (service H)
       (if unread_only then (''label:'' @ label) @ '' is:unread'' else ''label:'' @ label)
       max_results (outside s) = (Inl (Exception t), x)"
  then show "fetch_emails H label unread_only max_results s =
        (Inl (Exception t), \<lparr>outside = x, console = console s\<rparr>)"
    by (cases unread_only)
      (simp_all add: fetch_emails_def try_except_HttpError_def prog_defs Let_def)
next
  assume a: "messages_list (service H)
       (if unread_only then (''label:'' @ label) @ '' is:unread'' else ''label:'' @ label)
       max_results (outside s) = (Inr results, x)
       \<and> map (\<lambda>msg. map_of msg ''id'') (case results of None \<Rightarrow> [] | Some ms \<Rightarrow> ms)
           = map Some ids"
  then have ids: "map (\<lambda>msg. map_of msg ''id'') (case results of None \<Rightarrow> [] | Some ms \<Rightarrow> ms)
           = map Some ids"
    by blast
  have "parse_all H (case results of None \<Rightarrow> [] | Some ms \<Rightarrow> ms) [] (s\<lparr>outside := x\<rparr>) =
          (Inr ([] @ [d. Inr (Some d) \<leftarrow> fst (parse_each H ids (s\<lparr>outside := x\<rparr>))]),
           snd (parse_each H ids (s\<lparr>outside := x\<rparr>)))"
    by (rule parse_all_each [OF ids])
  with a show "fetch_emails H label unread_only max_results s =
        (Inr [d. Inr (Some d) \<leftarrow> fst (parse_each H ids (s\<lparr>outside := x\<rparr>))],
         snd (parse_each H ids (s\<lparr>outside := x\<rparr>)))"
    by (cases unread_only)
      (simp_all add: fetch_emails_def try_except_HttpError_def bind_def extern_def Let_def)
next
  show "\<exists>r s'. parse_email H msg_id s = (Inr r, s')"
    by (rule parse_email_returns)
next
  assume "fst (messages_get (service H) msg_id (outside s)) = Inl e"
  then show "fst (parse_email H msg_id s) = Inr None"
    by (cases "messages_get (service H) msg_id (outside s)")
      (simp add: parse_email_def prog_defs)
next
  assume "messages_get (service H) msg_id (outside s) = (Inr m, x)
        \<and> fst (get_email_body (decode H) m (s\<lparr>outside := x\<rparr>)) = Inl e"
  then show "fst (parse_email H msg_id s) = Inr None"
    by (cases "get_email_body (decode H) m (s\<lparr>outside := x\<rparr>)")
      (simp add: parse_email_def prog_defs Let_def)
next
  assume "messages_get (service H) msg_id (outside s) = (Inr m, x)
        \<and> get_email_body (decode H) m (s\<lparr>outside := x\<rparr>) = (Inr body, s2)"
  then show "parse_email H msg_id s =
           (Inr (Some [(''id'', msg_id),
                       (''subject'', header_value (headers m) ''Subject'' ''No Subject''),
                       (''from'', header_value (headers m) ''From'' ''Unknown''),
                       (''body'', body)]), s2)"
    by (simp add: parse_email_built)
qed

theorem fetch_emails_failure_modes_witness:
  "messages_list (service (demo_handler (HttpError ''503 Service Unavailable'')))
       (''label:Giveaway is:unread'') 10 (outside quiet)
     = (Inl (HttpError ''503 Service Unavailable''), ())
   \<and> fetch_emails (demo_handler (HttpError ''503 Service Unavailable'')) ''Giveaway'' True 10 quiet
     = (Inr [], \<lparr>outside = (),
                  console = [Print ''An error occurred: 503 Service Unavailable'']\<rparr>)
   \<and> messages_list (service patchy_handler) (''label:Giveaway is:unread'') 10 (outside quiet)
     = (Inr (Some [[(''id'', ''m1'')], [(''id'', ''m2'')], [(''id'', ''m3'')]]), ())
   \<and> fst (messages_get (service patchy_handler) ''m2'' (outside quiet))
     = Inl (HttpError ''404 Not Found'')
   \<and> fst (parse_email patchy_handler ''m2'' quiet) = Inr None
   \<and> fetch_emails patchy_handler ''Giveaway'' True 10 quiet
     = (Inr [demo_email ''m1'', demo_email ''m3''],
        \<lparr>outside = (), console = [Print ''Error parsing email m2: 404 Not Found'']\<rparr>)"
proof -
  let ?H = "demo_handler (HttpError ''503 Service Unavailable'')"
  have l: "messages_list (service ?H)
       (if True then (''label:'' @ ''Giveaway'') @ '' is:unread'' else ''label:'' @ ''Giveaway'')
       10 (outside quiet) = (Inl (HttpError ''503 Service Unavailable''), ())"
    by (simp add: demo_handler_def failing_gmail_def raise_def)
  note t = fetch_emails_failure_modes [where H = "?H" and unread_only = True
      and label = "''Giveaway''" and max_results = 10 and s = quiet
      and t = "''503 Service Unavailable''" and x = "()"]
  from t l have f: "fetch_emails ?H ''Giveaway'' True 10 quiet =
        (Inr [], \<lparr>outside = (), console = console quiet
                     @ [Print (''An error occurred: '' @ ''503 Service Unavailable'')]\<rparr>)"
    by blast
  let ?ms = "[[(''id'', ''m1'')], [(''id'', ''m2'')], [(''id'', ''m3'')]]"
  let ?ids = "[''m1'', ''m2'', ''m3'']"
  have l2: "messages_list (service patchy_handler)
       (if True then (''label:'' @ ''Giveaway'') @ '' is:unread'' else ''label:'' @ ''Giveaway'')
       10 (outside quiet) = (Inr (Some ?ms), ())"
    by (simp add: patchy_handler_def patchy_gmail_def ret_def)
  have i2: "map (\<lambda>msg. map_of msg ''id'') (case Some ?ms of None \<Rightarrow> [] | Some ms \<Rightarrow> ms)
              = map Some ?ids"
    by simp
  have g2: "fst (messages_get (service patchy_handler) ''m2'' (outside quiet))
              = Inl (HttpError ''404 Not Found'')"
    by (simp add: patchy_handler_def patchy_gmail_def raise_def)
  note u = fetch_emails_failure_modes [where H = patchy_handler and unread_only = True
      and label = "''Giveaway''" and max_results = 10 and s = quiet
      and results = "Some ?ms" and ids = "?ids" and x = "()" and msg_id = "''m2''"
      and e = "HttpError ''404 Not Found''"]
  from u g2 have p2: "fst (parse_email patchy_handler ''m2'' quiet) = Inr None"
    by blast
  from u l2 i2 have "fetch_emails patchy_handler ''Giveaway'' True 10 quiet =
        (Inr [d. Inr (Some d) \<leftarrow> fst (parse_each patchy_handler ?ids (quiet\<lparr>outside := ()\<rparr>))],
         snd (parse_each patchy_handler ?ids (quiet\<lparr>outside := ()\<rparr>)))"
    by blast
  also have "\<dots> = (Inr [demo_email ''m1'', demo_email ''m3''],
        \<lparr>outside = (), console = [Print ''Error parsing email m2: 404 Not Found'']\<rparr>)"
    by (simp add: parse_email_def get_email_body_def header_value_def prog_defs Let_def
        patchy_handler_def patchy_gmail_def demo_message_def demo_email_def quiet_def)
  finally have f2: "fetch_emails patchy_handler ''Giveaway'' True 10 quiet
     = (Inr [demo_email ''m1'', demo_email ''m3''],
        \<lparr>outside = (), console = [Print ''Error parsing email m2: 404 Not Found'']\<rparr>)" .
  from l f l2 g2 p2 f2 show ?thesis by (simp add: quiet_def)
qed

text \<open>
  C7.  \<open>_extract_link\<close> returns \<open>None\<close> exactly when the pattern matches at no position
  of the text, and returns \<open>url\<close> exactly when \<open>url\<close> is what the pattern matches at the
  leftmost position where it matches at all.  On the text of the specification it
  returns the first of the two links.
\<close>

lemma match_url_Nil: "match_url [] = None"
  by (simp add: match_url_def)

lemma extract_link_Cons:
  "extract_link (c # cs) =
     (case match_url (c # cs) of Some (m, r) \<Rightarrow> Some m | None \<Rightarrow> extract_link cs)"
  by (simp add: extract_link_def split: option.splits)

lemma extract_link_None: "extract_link t = None \<longleftrightarrow> (\<forall>i. match_url (drop i t) = None)"
proof (induction t)
  case Nil
  show ?case by (simp add: extract_link_def match_url_Nil)
next
  case (Cons c cs)
  show ?case
  proof (cases "match_url (c # cs)")
    case None
    have "(\<forall>i. match_url (drop i (c # cs)) = None) \<longleftrightarrow> (\<forall>i. match_url (drop i cs) = None)"
    proof
      assume a: "\<forall>i. match_url (drop i (c # cs)) = None"
      show "\<forall>i. match_url (drop i cs) = None"
      proof
        fix i
        from a have "match_url (drop (Suc i) (c # cs)) = None" by blast
        then show "match_url (drop i cs) = None" by simp
      qed
    next
      assume a: "\<forall>i. match_url (drop i cs) = None"
      show "\<forall>i. match_url (drop i (c # cs)) = None"
      proof
        fix i
        show "match_url (drop i (c # cs)) = None"
          using a None by (cases i) simp_all
      qed
    qed
    with None Cons.IH show ?thesis by (simp add: extract_link_Cons)
  next
    case (Some p)
    have "\<not> (\<forall>i. match_url (drop i (c # cs)) = None)"
    proof
      assume "\<forall>i. match_url (drop i (c # cs)) = None"
      then have "match_url (drop 0 (c # cs)) = None" by (rule spec)
      with Some show False by simp
    qed
    with Some show ?thesis by (simp add: extract_link_Cons split: prod.splits)
  qed
qed

lemma extract_link_Some:
  "extract_link t = Some url \<longleftrightarrow>
     (\<exists>i r. match_url (drop i t) = Some (url, r) \<and> (\<forall>j<i. match_url (drop j t) = None))"
proof (induction t)
  case Nil
  show ?case by (simp add: extract_link_def match_url_Nil)
next
  case (Cons c cs)
  show ?case
  proof (cases "match_url (c # cs)")
    case None
    have "(\<exists>i r. match_url (drop i (c # cs)) = Some (url, r)
              \<and> (\<forall>j<i. match_url (drop j (c # cs)) = None))
          \<longleftrightarrow> (\<exists>i r. match_url (drop i cs) = Some (url, r)
              \<and> (\<forall>j<i. match_url (drop j cs) = None))"
    proof
      assume "\<exists>i r. match_url (drop i (c # cs)) = Some (url, r)
              \<and> (\<forall>j<i. match_url (drop j (c # cs)) = None)"
      then obtain i r where m: "match_url (drop i (c # cs)) = Some (url, r)"
        and n: "\<forall>j<i. match_url (drop j (c # cs)) = None" by blast
      from m None obtain k where k: "i = Suc k" by (cases i) simp_all
      have "\<forall>j<k. match_url (drop j cs) = None"
      proof (intro allI impI)
        fix j assume "j < k"
        with k have "Suc j < i" by simp
        with n have "match_url (drop (Suc j) (c # cs)) = None" by blast
        then show "match_url (drop j cs) = None" by simp
      qed
      moreover from m k have "match_url (drop k cs) = Some (url, r)" by simp
      ultimately show "\<exists>i r. match_url (drop i cs) = Some (url, r)
              \<and> (\<forall>j<i. match_url (drop j cs) = None)" by blast
    next
      assume "\<exists>i r. match_url (drop i cs) = Some (url, r)
              \<and> (\<forall>j<i. match_url (drop j cs) = None)"
      then obtain i r where m: "match_url (drop i cs) = Some (url, r)"
        and n: "\<forall>j<i. match_url (drop j cs) = None" by blast
      have "\<forall>j<Suc i. match_url (drop j (c # cs)) = None"
      proof (intro allI impI)
        fix j assume j: "j < Suc i"
        show "match_url (drop j (c # cs)) = None"
          using None n j by (cases j) simp_all
      qed
      moreover from m have "match_url (drop (Suc i) (c # cs)) = Some (url, r)" by simp
      ultimately show "\<exists>i r. match_url (drop i (c # cs)) = Some (url, r)
              \<and> (\<forall>j<i. match_url (drop j (c # cs)) = None)" by blast
    qed
    with None Cons.IH show ?thesis by (simp add: extract_link_Cons)
  next
    case (Some p)
    obtain m r0 where p: "p = (m, r0)" by (cases p)
    have e: "extract_link (c # cs) = Some m"
      using Some p by (simp add: extract_link_Cons)
    have "(\<exists>i r. match_url (drop i (c # cs)) = Some (url, r)
              \<and> (\<forall>j<i. match_url (drop j (c # cs)) = None)) \<longleftrightarrow> m = url"
    proof
      assume "\<exists>i r. match_url (drop i (c # cs)) = Some (url, r)
              \<and> (\<forall>j<i. match_url (drop j (c # cs)) = None)"
      then obtain i r where m: "match_url (drop i (c # cs)) = Some (url, r)"
        and n: "\<forall>j<i. match_url (drop j (c # cs)) = None" by blast
      have "i = 0"
      proof (rule ccontr)
        assume "i \<noteq> 0"
        then have "0 < i" by simp
        with n have "match_url (drop 0 (c # cs)) = None" by (elim allE [of _ 0]) simp
        with Some show False by simp
      qed
      with m Some p show "m = url" by simp
    next
      assume "m = url"
      with Some p have "match_url (drop 0 (c # cs)) = Some (url, r0)
                        \<and> (\<forall>j<0. match_url (drop j (c # cs)) = None)" by simp
      then show "\<exists>i r. match_url (drop i (c # cs)) = Some (url, r)
              \<and> (\<forall>j<i. match_url (drop j (c # cs)) = None)"
        by (intro exI [of _ 0] exI [of _ r0])
    qed
    with e show ?thesis by simp
  qed
qed

lemma extract_link_example:
  "extract_link ''Visit http://example.com/win now and also https://other.com/x''
     = Some ''http://example.com/win''"
  by code_simp

theorem first_link_wins:
  "(extract_link body = None \<longleftrightarrow> (\<forall>i. match_url (drop i body) = None))
   \<and> (extract_link body = Some url \<longleftrightarrow>
        (\<exists>i r. match_url (drop i body) = Some (url, r)
           \<and> (\<forall>j<i. match_url (drop j body) = None)))
   \<and> extract_link ''Visit http://example.com/win now and also https://other.com/x''
        = Some ''http://example.com/win''"
  using extract_link_None [of body] extract_link_Some [of body url] extract_link_example
  by blast

theorem first_link_wins_witness:
  "match_url (drop 6 ''Visit http://example.com/win now and also https://other.com/x'')
     = Some (''http://example.com/win'', '' now and also https://other.com/x'')
   \<and> match_url (drop 42 ''Visit http://example.com/win now and also https://other.com/x'')
     = Some (''https://other.com/x'', '''')
   \<and> extract_link ''Visit http://example.com/win now and also https://other.com/x''
     = Some ''http://example.com/win''
   \<and> extract_link ''Visit example.com/win now'' = None"
proof -
  let ?b = "''Visit http://example.com/win now and also https://other.com/x''"
  have m: "match_url (drop 6 ?b)
             = Some (''http://example.com/win'', '' now and also https://other.com/x'')"
    by code_simp
  have m2: "match_url (drop 42 ?b) = Some (''https://other.com/x'', '''')"
    by code_simp
  have n: "\<forall>j<6. match_url (drop j ?b) = None"
    by (simp add: eval_nat_numeral All_less_Suc match_url_def)
  have "extract_link ?b = Some ''http://example.com/win''"
    using first_link_wins [of ?b "''http://example.com/win''"] m n by blast
  moreover have "extract_link ''Visit example.com/win now'' = None"
    by code_simp
  ultimately show ?thesis using m m2 by blast
qed

section \<open>The read-state of the messages across a cycle\<close>

text \<open>
  What is assumed of the libraries when the read-state is followed through a cycle:
  that Gmail's two reading requests, the tokenizer, the padding, the model and the
  browser with the elements it finds leave an observation \<open>obs\<close> of the outside world
  as they found it.  Nothing is assumed of \<open>messages().modify\<close>, the one request that
  takes the \<open>UNREAD\<close> label off a message.
\<close>

definition gmail_reads_preserve :: "('x \<Rightarrow> 'r) \<Rightarrow> 'x gmail \<Rightarrow> bool" where
  "gmail_reads_preserve obs G =
     ((\<forall>q max_results. preserves obs (messages_list G q max_results))
      \<and> (\<forall>msg_id. preserves obs (messages_get G msg_id)))"

definition classifier_preserves :: "('x \<Rightarrow> 'r) \<Rightarrow> 'x keras \<Rightarrow> 'x ModelPredictor \<Rightarrow> bool" where
  "classifier_preserves obs K M =
     ((\<forall>sequences maxlen. preserves obs (pad_sequences K sequences maxlen))
      \<and> (\<forall>tok texts. tokenizer M = Some tok \<longrightarrow> preserves obs (tok texts))
      \<and> (\<forall>mdl x. model M = Some mdl \<longrightarrow> preserves obs (mdl x)))"

definition element_preserves :: "('x \<Rightarrow> 'r) \<Rightarrow> 'x WebElement \<Rightarrow> bool" where
  "element_preserves obs el =
     ((\<forall>keys. preserves obs (send_keys el keys)) \<and> preserves obs (click el))"

definition driver_preserves :: "('x \<Rightarrow> 'r) \<Rightarrow> 'x WebDriver \<Rightarrow> bool" where
  "driver_preserves obs d =
     ((\<forall>url. preserves obs (get d url))
      \<and> (\<forall>selector. preserves obs (find_elements d selector))
      \<and> (\<forall>selector x els x'. find_elements d selector x = (Inr els, x') \<longrightarrow>
            list_all (element_preserves obs) els))"

definition browser_preserves :: "('x \<Rightarrow> 'r) \<Rightarrow> 'x AutomationEngine \<Rightarrow> bool" where
  "browser_preserves obs E = (\<forall>d. driver E = Some d \<longrightarrow> driver_preserves obs d)"

lemma preserves_ret: "preserves obs (ret x)"
  by (simp add: preserves_def ret_def)

lemma preserves_raise: "preserves obs (raise e)"
  by (simp add: preserves_def raise_def)

lemma preserves_lift: "preserves obs (lift r)"
  by (simp add: preserves_def lift_def)

lemma preserves_bind_result:
  assumes "preserves obs m"
    and "\<And>x s s'. m s = (Inr x, s') \<Longrightarrow> obs (snd (f x s')) = obs s'"
  shows "preserves obs (bind m f)"
  unfolding preserves_def
proof
  fix s
  obtain r s' where m: "m s = (r, s')" by (cases "m s")
  from assms(1) m have o: "obs s' = obs s" by (auto simp: preserves_def dest: spec [of _ s])
  show "obs (snd (bind m f s)) = obs s"
  proof (cases r)
    case (Inl e)
    with m o show ?thesis by (simp add: bind_def)
  next
    case (Inr x)
    with m assms(2) [of s x s'] o show ?thesis by (simp add: bind_def)
  qed
qed

lemma preserves_bind:
  assumes "preserves obs m" and "\<And>x. preserves obs (f x)"
  shows "preserves obs (bind m f)"
  using assms(1)
proof (rule preserves_bind_result)
  fix x s s'
  from assms(2) [of x] show "obs (snd (f x s')) = obs s'" by (simp add: preserves_def)
qed

lemma preserves_try_except:
  assumes "preserves obs m" and "\<And>e. preserves obs (h e)"
  shows "preserves obs (try_except m h)"
  unfolding preserves_def
proof
  fix s
  obtain r s' where m: "m s = (r, s')" by (cases "m s")
  from assms(1) m have o: "obs s' = obs s" by (auto simp: preserves_def dest: spec [of _ s])
  show "obs (snd (try_except m h s)) = obs s"
  proof (cases r)
    case (Inl e)
    from assms(2) [of e] have "obs (snd (h e s')) = obs s'" by (simp add: preserves_def)
    with Inl m o show ?thesis by (simp add: try_except_def)
  next
    case (Inr x)
    with m o show ?thesis by (simp add: try_except_def)
  qed
qed

lemma preserves_try_except_HttpError:
  assumes "preserves obs m" and "\<And>e. preserves obs (h e)"
  shows "preserves obs (try_except_HttpError m h)"
  unfolding preserves_def
proof
  fix s
  obtain r s' where m: "m s = (r, s')" by (cases "m s")
  from assms(1) m have o: "obs s' = obs s" by (auto simp: preserves_def dest: spec [of _ s])
  show "obs (snd (try_except_HttpError m h s)) = obs s"
  proof (cases r)
    case (Inl e)
    show ?thesis
    proof (cases e)
      case (HttpError t)
      from assms(2) [of "HttpError t"] have "obs (snd (h (HttpError t) s')) = obs s'"
        by (simp add: preserves_def)
      with Inl HttpError m o show ?thesis by (simp add: try_except_HttpError_def)
    next
      case (Exception t)
      with Inl m o show ?thesis by (simp add: try_except_HttpError_def)
    qed
  next
    case (Inr x)
    with m o show ?thesis by (simp add: try_except_HttpError_def)
  qed
qed

lemma preserves_extern:
  assumes "preserves obs f"
  shows "preserves (\<lambda>s. obs (outside s)) (extern f)"
  unfolding preserves_def
proof
  fix s :: "'a sys"
  obtain r x where f: "f (outside s) = (r, x)" by (cases "f (outside s)")
  with assms have "obs x = obs (outside s)"
    by (auto simp: preserves_def dest: spec [of _ "outside s"])
  with f show "obs (outside (snd (extern f s))) = obs (outside s)"
    by (simp add: extern_def)
qed

lemma preserves_print: "preserves (\<lambda>s. obs (outside s)) (print t)"
  by (simp add: preserves_def print_def)

lemma preserves_engine_logger: "preserves (\<lambda>s. obs (outside s)) (engine_logger l t)"
  by (simp add: preserves_def engine_logger_def)

lemma item00_preserves: "preserves obs (item00 p)"
  by (simp add: item00_def preserves_ret preserves_raise split: list.splits)

lemma preprocess_text_preserves:
  assumes "classifier_preserves obs K M"
  shows "preserves (\<lambda>s. obs (outside s)) (preprocess_text K M t)"
proof (cases "tokenizer M")
  case None
  then show ?thesis by (simp add: preprocess_text_def preserves_ret)
next
  case (Some tok)
  have n: "preserves (\<lambda>s. obs (outside s))
             (case max_length M of
                None \<Rightarrow> raise (Exception (squoted ''ModelPredictor''
                                   @ '' object has no attribute '' @ squoted ''max_length''))
              | Some n \<Rightarrow> ret n)"
    by (cases "max_length M") (simp_all add: preserves_ret preserves_raise)
  from assms Some have t: "\<And>texts. preserves obs (tok texts)"
    and p: "\<And>sequences maxlen. preserves obs (pad_sequences K sequences maxlen)"
    by (simp_all add: classifier_preserves_def)
  show ?thesis
    unfolding preprocess_text_def Some option.case Let_def
    by (intro preserves_bind preserves_extern preserves_ret t p n)
qed

lemma predict_preserves:
  assumes "classifier_preserves obs K M"
  shows "preserves (\<lambda>s. obs (outside s)) (predict K M t)"
proof (cases "model M")
  case None
  then show ?thesis
    by (simp add: predict_def preserves_bind preserves_print preserves_ret)
next
  case (Some mdl)
  show ?thesis
  proof (cases "tokenizer M")
    case None
    with Some show ?thesis
      by (simp add: predict_def preserves_bind preserves_print preserves_ret)
  next
    case tok: (Some tok)
    from assms Some have m: "\<And>x. preserves obs (mdl x)"
      by (simp add: classifier_preserves_def)
    have k: "preserves (\<lambda>s. obs (outside s))
               (case processed of
                  None \<Rightarrow> ret False
                | Some x \<Rightarrow> bind (extern (mdl x)) (\<lambda>prediction.
                             bind (item00 prediction) (\<lambda>v. ret (v > 0.5))))" for processed
      by (cases processed)
        (auto intro!: preserves_bind preserves_extern preserves_ret item00_preserves m)
    show ?thesis
      unfolding predict_def Some tok option.case
      by (intro preserves_try_except preserves_bind preserves_print preserves_ret
          preprocess_text_preserves [OF assms] k)
  qed
qed

lemma get_confidence_score_preserves:
  assumes "classifier_preserves obs K M"
  shows "preserves (\<lambda>s. obs (outside s)) (get_confidence_score K M t)"
proof (cases "model M")
  case None
  then show ?thesis by (simp add: get_confidence_score_def preserves_ret)
next
  case (Some mdl)
  show ?thesis
  proof (cases "tokenizer M")
    case None
    with Some show ?thesis by (simp add: get_confidence_score_def preserves_ret)
  next
    case tok: (Some tok)
    from assms Some have m: "\<And>x. preserves obs (mdl x)"
      by (simp add: classifier_preserves_def)
    have k: "preserves (\<lambda>s. obs (outside s))
               (case processed of
                  None \<Rightarrow> ret 0
                | Some x \<Rightarrow> bind (extern (mdl x)) (\<lambda>prediction.
                             bind (item00 prediction) (\<lambda>v. ret v)))" for processed
      by (cases processed)
        (auto intro!: preserves_bind preserves_extern preserves_ret item00_preserves m)
    show ?thesis
      unfolding get_confidence_score_def Some tok option.case
      by (intro preserves_try_except preserves_bind preserves_print preserves_ret
          preprocess_text_preserves [OF assms] k)
  qed
qed

lemma found_preserves:
  assumes d: "driver_preserves obs d"
    and k: "\<And>els. list_all (element_preserves obs) els \<Longrightarrow> preserves (\<lambda>s. obs (outside s)) (k els)"
  shows "preserves (\<lambda>s. obs (outside s)) (bind (extern (find_elements d selector)) k)"
proof (rule preserves_bind_result)
  from d show "preserves (\<lambda>s. obs (outside s)) (extern (find_elements d selector))"
    by (simp add: driver_preserves_def preserves_extern)
next
  fix els and s s' :: "'a sys"
  assume "extern (find_elements d selector) s = (Inr els, s')"
  then have "find_elements d selector (outside s) = (Inr els, outside s')"
    by (auto simp: extern_def split: prod.splits)
  with d have "list_all (element_preserves obs) els"
    unfolding driver_preserves_def by blast
  from k [OF this] show "obs (outside (snd (k els s'))) = obs (outside s')"
    by (simp add: preserves_def)
qed

lemma fill_form_preserves:
  assumes "driver_preserves obs d"
  shows "preserves (\<lambda>s. obs (outside s)) (fill_form d email_data)"
proof -
  have field: "preserves (\<lambda>s. obs (outside s))
                 (case els of
                    [] \<Rightarrow> ret ()
                  | field # _ \<Rightarrow> bind (extern (send_keys field keys)) (\<lambda>_. engine_logger l t))"
    if "list_all (element_preserves obs) els" for els keys l t
    using that
    by (cases els)
      (auto simp: element_preserves_def
        intro!: preserves_bind preserves_extern preserves_ret preserves_engine_logger)
  show ?thesis
    unfolding fill_form_def
    by (intro preserves_try_except found_preserves [OF assms] preserves_bind field
        preserves_engine_logger)
qed

lemma submit_form_preserves:
  assumes "driver_preserves obs d"
  shows "preserves (\<lambda>s. obs (outside s)) (submit_form d)"
proof -
  have button: "preserves (\<lambda>s. obs (outside s))
                 (case els of
                    [] \<Rightarrow> ret ()
                  | button # _ \<Rightarrow> bind (extern (click button)) (\<lambda>_. engine_logger l t))"
    if "list_all (element_preserves obs) els" for els l t
    using that
    by (cases els)
      (auto simp: element_preserves_def
        intro!: preserves_bind preserves_extern preserves_ret preserves_engine_logger)
  show ?thesis
    unfolding submit_form_def
    by (intro preserves_try_except found_preserves [OF assms] button preserves_engine_logger)
qed

lemma participate_in_giveaway_preserves:
  assumes "browser_preserves obs E"
  shows "preserves (\<lambda>s. obs (outside s)) (participate_in_giveaway E email_data)"
proof (cases "driver E")
  case None
  then show ?thesis
    by (simp add: participate_in_giveaway_def preserves_bind preserves_engine_logger
        preserves_ret)
next
  case (Some d)
  with assms have d: "driver_preserves obs d" by (simp add: browser_preserves_def)
  then have g: "\<And>url. preserves obs (get d url)" by (simp add: driver_preserves_def)
  have body: "preserves (\<lambda>s. obs (outside s))
                (case giveaway_url of
                   None \<Rightarrow> bind (engine_logger WARNING ''No giveaway link found'')
                            (\<lambda>_. ret False)
                 | Some url \<Rightarrow>
                     if url = [] then
                       bind (engine_logger WARNING ''No giveaway link found'') (\<lambda>_. ret False)
                     else
                       bind (engine_logger INFO (''Navigating to giveaway: '' @ url)) (\<lambda>_.
                       bind (extern (get d url)) (\<lambda>_.
                       bind (fill_form d email_data) (\<lambda>_.
                       bind (submit_form d) (\<lambda>_.
                       bind (engine_logger INFO ''Successfully participated in giveaway'') (\<lambda>_.
                       ret True))))))" for giveaway_url
    by (cases giveaway_url)
      (auto intro!: preserves_bind preserves_extern preserves_ret preserves_engine_logger g
        fill_form_preserves [OF d] submit_form_preserves [OF d])
  show ?thesis
    unfolding participate_in_giveaway_def Some option.case Let_def
    by (intro preserves_try_except preserves_bind preserves_engine_logger preserves_ret body)
qed

lemma body_of_parts_preserves: "preserves obs (body_of_parts dec ps)"
  by (induction ps) (simp_all add: preserves_ret preserves_lift Let_def)

lemma get_email_body_preserves: "preserves obs (get_email_body dec payload)"
  by (simp add: get_email_body_def body_of_parts_preserves preserves_ret preserves_lift Let_def
      split: option.splits)

lemma parse_email_preserves:
  assumes "gmail_reads_preserve obs (service H)"
  shows "preserves (\<lambda>s. obs (outside s)) (parse_email H msg_id)"
proof -
  from assms have g: "preserves obs (messages_get (service H) msg_id)"
    by (simp add: gmail_reads_preserve_def)
  show ?thesis
    unfolding parse_email_def Let_def
    by (intro preserves_try_except preserves_bind preserves_extern preserves_print
        preserves_ret get_email_body_preserves g)
qed

lemma subscript_preserves: "preserves obs (subscript d k)"
  by (simp add: subscript_def preserves_ret preserves_raise split: option.splits)

lemma parse_all_preserves:
  assumes "gmail_reads_preserve obs (service H)"
  shows "preserves (\<lambda>s. obs (outside s)) (parse_all H msgs emails)"
proof (induction msgs arbitrary: emails)
  case Nil
  show ?case by (simp add: preserves_ret)
next
  case (Cons msg msgs)
  have k: "preserves (\<lambda>s. obs (outside s))
             (case email_data of
                None \<Rightarrow> parse_all H msgs emails
              | Some d \<Rightarrow>
                  if d \<noteq> [] then parse_all H msgs (emails @ [d])
                  else parse_all H msgs emails)" for email_data
    by (cases email_data) (simp_all add: Cons.IH)
  show ?case
    unfolding parse_all.simps
    by (intro preserves_bind subscript_preserves parse_email_preserves [OF assms] k)
qed

lemma fetch_emails_preserves:
  assumes "gmail_reads_preserve obs (service H)"
  shows "preserves (\<lambda>s. obs (outside s)) (fetch_emails H label unread_only max_results)"
proof -
  from assms have l: "\<And>q. preserves obs (messages_list (service H) q max_results)"
    by (simp add: gmail_reads_preserve_def)
  show ?thesis
    unfolding fetch_emails_def Let_def
    by (intro preserves_try_except_HttpError preserves_bind preserves_extern preserves_print
        preserves_ret parse_all_preserves [OF assms] l)
qed

lemma system_ports_preserve:
  assumes "gmail_reads_preserve obs (service H)" and "classifier_preserves obs K M"
    and "browser_preserves obs E"
  shows "ports_preserve (\<lambda>s. obs (outside s)) (system_ports H K M E)"
  by (simp add: ports_preserve_def system_ports_def fetch_emails_preserves [OF assms(1)]
      predict_preserves [OF assms(2)] get_confidence_score_preserves [OF assms(2)]
      participate_in_giveaway_preserves [OF assms(3)])

lemma parse_email_ignores_modify:
  "parse_email (H\<lparr>service := (service H)\<lparr>messages_modify := g\<rparr>\<rparr>) = parse_email H"
  by (simp add: parse_email_def fun_eq_iff)

lemma parse_all_ignores_modify:
  "parse_all (H\<lparr>service := (service H)\<lparr>messages_modify := g\<rparr>\<rparr>) msgs emails
     = parse_all H msgs emails"
  by (induction msgs arbitrary: emails)
    (simp_all add: parse_email_ignores_modify cong: if_cong option.case_cong)

lemma fetch_emails_ignores_modify:
  "fetch_emails (H\<lparr>service := (service H)\<lparr>messages_modify := g\<rparr>\<rparr>) = fetch_emails H"
  by (simp add: fetch_emails_def parse_all_ignores_modify fun_eq_iff)

lemma system_ignores_modify:
  "process_emails (system_ports (H\<lparr>service := (service H)\<lparr>messages_modify := g\<rparr>\<rparr>) K M E)
     = process_emails (system_ports H K M E)"
proof -
  have "system_ports (H\<lparr>service := (service H)\<lparr>messages_modify := g\<rparr>\<rparr>) K M E
          = (system_ports H K M E)
              \<lparr>port_mark_as_read :=
                 mark_as_read (H\<lparr>service := (service H)\<lparr>messages_modify := g\<rparr>\<rparr>)\<rparr>"
    by (simp add: system_ports_def fetch_emails_ignores_modify)
  then show ?thesis by (simp add: process_emails_ignores_mark)
qed

text \<open>
  C9.  A cycle does not depend on the \<open>mark_as_read\<close> method at all: replacing it changes
  nothing, and no call to it is in the trace.  In the system as the repository wires
  it, a cycle does not depend on Gmail's \<open>modify\<close> request either: \<open>fetch_emails\<close> and the
  rest of the cycle never send it.  So when Gmail's reading requests, the classifier's
  libraries and the browser leave the read-state of the messages alone, the read-state
  after a cycle is the read-state before it; and a listing that depends on the world
  through the read-state only answers the next cycle as it answered this one: every
  message fetched is fetched again.
\<close>

theorem read_state_untouched:
  "process_emails (P\<lparr>port_mark_as_read := f\<rparr>) = process_emails P
   \<and> mark_as_read_calls (trace (snd (process_emails P (start w)))) = []
   \<and> process_emails (system_ports (H\<lparr>service := (service H)\<lparr>messages_modify := g\<rparr>\<rparr>) K M E)
       = process_emails (system_ports H K M E)
   \<and> (gmail_reads_preserve obs (service H) \<and> classifier_preserves obs K M
        \<and> browser_preserves obs E \<longrightarrow>
        obs (outside (world (snd (process_emails (system_ports H K M E) (start s))))) = obs (outside s)
        \<and> ((\<forall>u v. obs u = obs v \<longrightarrow>
               fst (messages_list (service H) q max_results u)
                 = fst (messages_list (service H) q max_results v)) \<longrightarrow>
             fst (messages_list (service H) q max_results
                    (outside (world (snd (process_emails (system_ports H K M E) (start s))))))
               = fst (messages_list (service H) q max_results (outside s))))"
proof (intro conjI)
  show "process_emails (P\<lparr>port_mark_as_read := f\<rparr>) = process_emails P"
    by (rule process_emails_ignores_mark)
  show "mark_as_read_calls (trace (snd (process_emails P (start w)))) = []"
    by (rule process_emails_mark_calls)
  show "process_emails (system_ports (H\<lparr>service := (service H)\<lparr>messages_modify := g\<rparr>\<rparr>) K M E)
       = process_emails (system_ports H K M E)"
    by (rule system_ignores_modify)
  show "gmail_reads_preserve obs (service H) \<and> classifier_preserves obs K M
        \<and> browser_preserves obs E \<longrightarrow>
        obs (outside (world (snd (process_emails (system_ports H K M E) (start s))))) = obs (outside s)
        \<and> ((\<forall>u v. obs u = obs v \<longrightarrow>
               fst (messages_list (service H) q max_results u)
                 = fst (messages_list (service H) q max_results v)) \<longrightarrow>
             fst (messages_list (service H) q max_results
                    (outside (world (snd (process_emails (system_ports H K M E) (start s))))))
               = fst (messages_list (service H) q max_results (outside s)))"
  proof
    assume a: "gmail_reads_preserve obs (service H) \<and> classifier_preserves obs K M
        \<and> browser_preserves obs E"
    then have "ports_preserve (\<lambda>s. obs (outside s)) (system_ports H K M E)"
      by (simp add: system_ports_preserve)
    then have o: "obs (outside (world (snd (process_emails (system_ports H K M E) (start s)))))
                    = obs (outside s)"
      by (rule process_emails_preserves)
    then show "obs (outside (world (snd (process_emails (system_ports H K M E) (start s))))) = obs (outside s)
        \<and> ((\<forall>u v. obs u = obs v \<longrightarrow>
               fst (messages_list (service H) q max_results u)
                 = fst (messages_list (service H) q max_results v)) \<longrightarrow>
             fst (messages_list (service H) q max_results
                    (outside (world (snd (process_emails (system_ports H K M E) (start s))))))
               = fst (messages_list (service H) q max_results (outside s)))"
      by blast
  qed
qed

lemma shop_link:
  "extract_link ''Enter at http://shop.example/win today'' = Some ''http://shop.example/win''"
  by code_simp

lemmas inbox_system_defs = system_ports_def fetch_emails_def parse_email_def
  get_email_body_def header_value_def subscript_def predict_def get_confidence_score_def
  preprocess_text_def item00_def participate_in_giveaway_def fill_form_def submit_form_def
  try_except_HttpError_def prog_defs Let_def inbox_handler_def inbox_gmail_def
  demo_message_def demo_email_def demo_keras_def demo_predictor_def demo_model_def
  demo_tokenizer_def demo_engine_def demo_driver_def process_emails_def
  process_emails_body_def run_defs participations_def dict_get_def extract_email_text_def
  newline_def shop_link

theorem read_state_untouched_witness:
  "gmail_reads_preserve (\<lambda>x. x) (service inbox_handler)
   \<and> classifier_preserves (\<lambda>x. x) demo_keras (demo_predictor 0.9 :: string list ModelPredictor)
   \<and> browser_preserves (\<lambda>x. x) (demo_engine :: string list AutomationEngine)
   \<and> snd (messages_modify (service inbox_handler) ''m1'' [''UNREAD''] [''m1'', ''m2'']) = [''m2'']
   \<and> snd (mark_as_read inbox_handler ''m1'' \<lparr>outside = [''m1'', ''m2''], console = []\<rparr>)
       = \<lparr>outside = [''m2''], console = []\<rparr>
   \<and> outside (world (snd (process_emails
        (system_ports inbox_handler demo_keras (demo_predictor 0.9) demo_engine)
        (start \<lparr>outside = [''m1'', ''m2''], console = []\<rparr>)))) = [''m1'', ''m2'']
   \<and> fst (messages_list (service inbox_handler) ''label:Giveaway is:unread'' 10
        (outside (world (snd (process_emails
           (system_ports inbox_handler demo_keras (demo_predictor 0.9) demo_engine)
           (start \<lparr>outside = [''m1'', ''m2''], console = []\<rparr>))))))
       = Inr (Some [[(''id'', ''m1'')], [(''id'', ''m2'')]])
   \<and> participations (trace (snd (process_emails
        (system_ports inbox_handler demo_keras (demo_predictor 0.9) demo_engine)
        (start \<lparr>outside = [''m1'', ''m2''], console = []\<rparr>))))
       = [demo_email ''m1'', demo_email ''m2'']
   \<and> participations (trace (snd (process_emails
        (system_ports inbox_handler demo_keras (demo_predictor 0.9) demo_engine)
        (start (world (snd (process_emails
           (system_ports inbox_handler demo_keras (demo_predictor 0.9) demo_engine)
           (start \<lparr>outside = [''m1'', ''m2''], console = []\<rparr>))))))))
       = [demo_email ''m1'', demo_email ''m2'']"
proof -
  let ?S = "system_ports inbox_handler demo_keras (demo_predictor 0.9) demo_engine"
  let ?s = "\<lparr>outside = [''m1'', ''m2''], console = []\<rparr> :: string list sys"
  have m: "snd (messages_modify (service inbox_handler) ''m1'' [''UNREAD''] [''m1'', ''m2''])
             = [''m2'']"
    by (simp add: inbox_handler_def inbox_gmail_def)
  have r: "snd (mark_as_read inbox_handler ''m1'' ?s) = \<lparr>outside = [''m2''], console = []\<rparr>"
    by (simp add: mark_as_read_def try_except_HttpError_def bind_def extern_def ret_def
        inbox_handler_def inbox_gmail_def)
  have g: "gmail_reads_preserve (\<lambda>x. x) (service inbox_handler)"
    by (simp add: gmail_reads_preserve_def preserves_def inbox_handler_def inbox_gmail_def
        ret_def)
  have c: "classifier_preserves (\<lambda>x. x) demo_keras (demo_predictor 0.9 :: string list ModelPredictor)"
    by (auto simp: classifier_preserves_def preserves_def demo_keras_def demo_predictor_def
        demo_model_def demo_tokenizer_def ret_def)
  have b: "browser_preserves (\<lambda>x. x) (demo_engine :: string list AutomationEngine)"
    by (auto simp: browser_preserves_def driver_preserves_def preserves_def demo_engine_def
        demo_driver_def ret_def)
  have d: "\<forall>u v. u = v \<longrightarrow>
             fst (messages_list (service inbox_handler) ''label:Giveaway is:unread'' 10 u)
               = fst (messages_list (service inbox_handler) ''label:Giveaway is:unread'' 10 v)"
    by simp
  note t = read_state_untouched [where H = inbox_handler and K = demo_keras
      and M = "demo_predictor 0.9" and E = demo_engine and obs = "\<lambda>x. x" and s = "?s"
      and q = "''label:Giveaway is:unread''" and max_results = 10]
  note u = t [THEN conjunct2, THEN conjunct2, THEN conjunct2, THEN mp,
      OF conjI [OF g conjI [OF c b]]]
  from u [THEN conjunct1]
  have o: "outside (world (snd (process_emails ?S (start ?s)))) = [''m1'', ''m2'']"
    by simp
  from u [THEN conjunct2, THEN mp, OF d]
  have "fst (messages_list (service inbox_handler) ''label:Giveaway is:unread'' 10
                         (outside (world (snd (process_emails ?S (start ?s))))))
                     = fst (messages_list (service inbox_handler) ''label:Giveaway is:unread'' 10
                         (outside ?s))" .
  also have "\<dots> = Inr (Some [[(''id'', ''m1'')], [(''id'', ''m2'')]])"
    by (simp add: inbox_handler_def inbox_gmail_def)
  finally have l: "fst (messages_list (service inbox_handler) ''label:Giveaway is:unread'' 10
                         (outside (world (snd (process_emails ?S (start ?s))))))
                     = Inr (Some [[(''id'', ''m1'')], [(''id'', ''m2'')]])" .
  have c1: "participations (trace (snd (process_emails ?S (start ?s))))
              = [demo_email ''m1'', demo_email ''m2'']"
    by (simp add: inbox_system_defs)
  have c2: "participations (trace (snd (process_emails ?S
              (start (world (snd (process_emails ?S (start ?s))))))))
              = [demo_email ''m1'', demo_email ''m2'']"
    by (simp add: inbox_system_defs)
  from g c b m r o l c1 c2 show ?thesis by simp
qed

end
